theory Spec2Isabelle
  imports Main "HOL-Library.Word"
begin

unbundle bit_operations_syntax

section \<open>The FlightAware adept protocol, client side (flightaware/client/adeptclient.py)\<close>

text \<open>
  Python integers are unbounded and are modelled as \<open>int\<close>; counts that only grow from 0
  are \<open>nat\<close>. A byte is an \<open>8 word\<close>, a \<open>bytes\<close> or \<open>bytearray\<close> value a list of bytes,
  a \<open>str\<close> a \<open>string\<close>. Every exception the source can raise is a value of \<open>error\<close>.
  A method that mutates its object returns the pair of the exception raised, if any, and
  the object as it is at that moment: a Python object keeps the assignments made before
  a raise.
\<close>

type_synonym byte = "8 word"

datatype struct_reason = OutOfRange | BufferTooSmall

datatype error =
    StructError struct_reason
  | TypeError
  | AttributeError
  | OverflowError
  | KeyError
  | ValueError
  | UnicodeDecodeError
  | UnicodeEncodeError
  | SocketError
  | IOError

subsection \<open>The struct module: big-endian packing without alignment\<close>

text \<open>
  \<open>be_bytes n v\<close> is the \<open>n\<close>-byte big-endian two's complement representation of \<open>v\<close>
  (the low \<open>8 * n\<close> bits). \<open>be_uint\<close> and \<open>be_sint\<close> read such a representation
  back the way \<open>struct.unpack\<close> does for the unsigned and the signed formats; the source
  only packs, the readers are here to state what the packed bytes mean.
\<close>

fun be_bytes :: "nat \<Rightarrow> int \<Rightarrow> byte list" where
  "be_bytes 0 v = []"
| "be_bytes (Suc n) v = be_bytes n (v div 256) @ [word_of_int v]"



text \<open>
  The format characters the source uses: \<open>B\<close> (uint8), \<open>H\<close> (uint16), \<open>I\<close> (uint32),
  \<open>Q\<close> (uint64), \<open>i\<close> (int32) and \<open>Ns\<close> (a byte string cut or zero-padded to \<open>N\<close> bytes).
  A value outside the range of its format raises \<open>struct.error\<close>.
\<close>

datatype field =
    FB int
  | FH int
  | FI int
  | FQ int
  | Fi int
  | Fs nat "byte list"

fun field_size :: "field \<Rightarrow> nat" where
  "field_size (FB v) = 1"
| "field_size (FH v) = 2"
| "field_size (FI v) = 4"
| "field_size (FQ v) = 8"
| "field_size (Fi v) = 4"
| "field_size (Fs n bs) = n"

fun pack_field :: "field \<Rightarrow> byte list option" where
  "pack_field (FB v) = (if 0 \<le> v \<and> v < 2 ^ 8 then Some (be_bytes 1 v) else None)"
| "pack_field (FH v) = (if 0 \<le> v \<and> v < 2 ^ 16 then Some (be_bytes 2 v) else None)"
| "pack_field (FI v) = (if 0 \<le> v \<and> v < 2 ^ 32 then Some (be_bytes 4 v) else None)"
| "pack_field (FQ v) = (if 0 \<le> v \<and> v < 2 ^ 64 then Some (be_bytes 8 v) else None)"
| "pack_field (Fi v) = (if - (2 ^ 31) \<le> v \<and> v < 2 ^ 31 then Some (be_bytes 4 v) else None)"
| "pack_field (Fs n bs) = Some (take n bs @ replicate (n - length bs) 0)"

fun struct_size :: "field list \<Rightarrow> nat" where
  "struct_size [] = 0"
| "struct_size (f # fs) = field_size f + struct_size fs"

fun pack :: "field list \<Rightarrow> byte list option" where
  "pack [] = Some []"
| "pack (f # fs) =
     (case pack_field f of
        None \<Rightarrow> None
      | Some bs \<Rightarrow> (case pack fs of None \<Rightarrow> None | Some rest \<Rightarrow> Some (bs @ rest)))"

definition write_at :: "byte list \<Rightarrow> nat \<Rightarrow> byte list \<Rightarrow> byte list" where
  "write_at b off bs = take off b @ bs @ drop (off + length bs) b"

definition slice :: "nat \<Rightarrow> nat \<Rightarrow> 'a list \<Rightarrow> 'a list" where
  "slice off n xs = take n (drop off xs)"

text \<open>
  \<open>Struct.pack_into(buf, offset, ...)\<close> packs in place. The buffer must hold \<open>size\<close>
  bytes from \<open>offset\<close> on, else \<open>struct.error\<close> is raised and nothing is written.
  Then CPython clears the \<open>size\<close> bytes of the target and packs the values one after
  the other into it, so that a value out of range raises \<open>struct.error\<close> with the
  fields before it written and the rest of the target zero. A field that fails its range
  check writes nothing; \<open>Q\<close> has no range check of its own and stores the low 64 bits
  of a value that is too large before the conversion reports the overflow (a negative
  value is refused before anything is stored). \<open>spill\<close> is what the failing field
  leaves in its place, \<open>pack_partial\<close> the target after a failed packing.
\<close>

fun spill :: "field \<Rightarrow> byte list" where
  "spill (FQ v) = (if 0 \<le> v then be_bytes 8 v else replicate 8 0)"
| "spill (FB v) = replicate 1 0"
| "spill (FH v) = replicate 2 0"
| "spill (FI v) = replicate 4 0"
| "spill (Fi v) = replicate 4 0"
| "spill (Fs n bs) = replicate n 0"

fun pack_partial :: "field list \<Rightarrow> byte list" where
  "pack_partial [] = []"
| "pack_partial (f # fs) =
     (case pack_field f of
        None \<Rightarrow> spill f @ replicate (struct_size fs) 0
      | Some bs \<Rightarrow> bs @ pack_partial fs)"

text \<open>The exception, if any, and the buffer after the call.\<close>

definition pack_into :: "field list \<Rightarrow> byte list \<Rightarrow> nat \<Rightarrow> error option \<times> byte list" where
  "pack_into fs b off =
     (if length b < off + struct_size fs then (Some (StructError BufferTooSmall), b)
      else case pack fs of
             None \<Rightarrow> (Some (StructError OutOfRange), write_at b off (pack_partial fs))
           | Some bs \<Rightarrow> (None, write_at b off bs))"

subsection \<open>Submessage types and layouts\<close>

definition TYPE_SYNC :: int where "TYPE_SYNC = 1"
definition TYPE_MLAT_SHORT :: int where "TYPE_MLAT_SHORT = 2"
definition TYPE_MLAT_LONG :: int where "TYPE_MLAT_LONG = 3"
definition TYPE_REBASE :: int where "TYPE_REBASE = 5"
definition TYPE_ABS_SYNC :: int where "TYPE_ABS_SYNC = 6"

text \<open>\<open>STRUCT_HEADER = struct.Struct(">IHQ")\<close> and the others, applied to their values.\<close>

definition STRUCT_HEADER :: "int \<Rightarrow> int \<Rightarrow> int \<Rightarrow> field list" where
  "STRUCT_HEADER k sq ts = [FI k, FH sq, FQ ts]"

definition STRUCT_SYNC ::
  "int \<Rightarrow> int \<Rightarrow> int \<Rightarrow> int \<Rightarrow> int \<Rightarrow> int \<Rightarrow> byte list \<Rightarrow> byte list \<Rightarrow> field list" where
  "STRUCT_SYNC t a2 a1 a0 ed od eb ob =
     [FB t, FB a2, FB a1, FB a0, Fi ed, Fi od, Fs 14 eb, Fs 14 ob]"

definition STRUCT_MLAT_SHORT ::
  "int \<Rightarrow> int \<Rightarrow> int \<Rightarrow> int \<Rightarrow> int \<Rightarrow> byte list \<Rightarrow> field list" where
  "STRUCT_MLAT_SHORT t a2 a1 a0 d b = [FB t, FB a2, FB a1, FB a0, Fi d, Fs 7 b]"

definition STRUCT_MLAT_LONG ::
  "int \<Rightarrow> int \<Rightarrow> int \<Rightarrow> int \<Rightarrow> int \<Rightarrow> byte list \<Rightarrow> field list" where
  "STRUCT_MLAT_LONG t a2 a1 a0 d b = [FB t, FB a2, FB a1, FB a0, Fi d, Fs 14 b]"

definition STRUCT_REBASE :: "int \<Rightarrow> int \<Rightarrow> field list" where
  "STRUCT_REBASE t ts = [FB t, FQ ts]"

definition STRUCT_ABS_SYNC ::
  "int \<Rightarrow> int \<Rightarrow> int \<Rightarrow> int \<Rightarrow> int \<Rightarrow> int \<Rightarrow> byte list \<Rightarrow> byte list \<Rightarrow> field list" where
  "STRUCT_ABS_SYNC t a2 a1 a0 et ot eb ob =
     [FB t, FB a2, FB a1, FB a0, FQ et, FQ ot, Fs 14 eb, Fs 14 ob]"

subsection \<open>Messages\<close>

text \<open>
  The message class is not part of this file. The source reads \<open>message.address\<close>,
  \<open>message.timestamp\<close>, \<open>message.df\<close>, \<open>len(message)\<close>, \<open>bytes(message)\<close> and
  \<open>str(message)\<close>: \<open>payload\<close> is \<open>bytes(message)\<close> and \<open>len(message)\<close> its length;
  \<open>str(message)\<close> is a parameter of the text writer.
\<close>

record message =
  address :: int
  timestamp :: int
  payload :: "byte list"
  df :: int

subsection \<open>True division by two: \<open>int((a + b) / 2)\<close>\<close>

text \<open>
  \<open>(a + b) / 2\<close> is Python's true division of two integers: the exact quotient
  rounded to the nearest double (53 significant bits, ties to even), \<open>OverflowError\<close>
  when that is beyond the range of a double. \<open>int\<close> then truncates towards zero.
  \<open>excess_bits n\<close> is the number of low bits of \<open>n\<close> a 53-bit significand cannot hold.
\<close>

function excess_bits :: "int \<Rightarrow> nat" where
  "excess_bits n = (if n < 2 ^ 53 then 0 else Suc (excess_bits (n div 2)))"
  by pat_completeness auto
termination
  by (relation "measure nat") auto

declare excess_bits.simps [simp del]

definition round_half_even :: "nat \<Rightarrow> int \<Rightarrow> int" where
  "round_half_even e n =
     (let q = n div 2 ^ e; r = n mod 2 ^ e
      in (if 2 * r > 2 ^ e \<or> (2 * r = 2 ^ e \<and> odd q) then q + 1 else q) * 2 ^ e)"

definition int_half :: "int \<Rightarrow> error + int" where
  "int_half n =
     (let a = \<bar>n\<bar>; m = round_half_even (excess_bits a) a
      in if m div 2 \<ge> 2 ^ 1024 then Inl OverflowError else Inr (sgn n * (m div 2)))"

subsection \<open>UdpServerConnection\<close>

text \<open>
  The socket is \<open>None\<close> until \<open>start\<close>; afterwards it is a socket object that is
  connected, not connected (its \<open>connect\<close> raised) or closed. The last two fields are
  what lies outside the object: the counter \<open>stats.global_stats.server_udp_bytes\<close>, and the
  calls of \<open>sock.send\<close> made so far, each with the bytes handed over and whether the send
  succeeded.
\<close>

datatype sock_state = Unconnected | Connected | SockClosed

record udp =
  host :: string
  port :: int
  key :: int
  base_timestamp :: "int option"
  header_timestamp :: "int option"
  buf :: "byte list"
  used :: nat
  seq :: int
  count :: nat
  sock :: "sock_state option"
  server_udp_bytes :: nat
  wire :: "(byte list \<times> bool) list"

definition init :: "string \<Rightarrow> int \<Rightarrow> int \<Rightarrow> udp" where
  "init h p k =
     \<lparr> host = h, port = p, key = k, base_timestamp = None, header_timestamp = None,
       buf = replicate 1500 0, used = 0, seq = 0, count = 0, sock = None,
       server_udp_bytes = 0, wire = [] \<rparr>"

text \<open>Sequencing: the second step runs only when the first did not raise.\<close>

definition andthen :: "error option \<times> 's \<Rightarrow> ('s \<Rightarrow> error option \<times> 's) \<Rightarrow> error option \<times> 's" where
  "andthen r f = (case r of (None, s) \<Rightarrow> f s | (Some e, s) \<Rightarrow> (Some e, s))"

text \<open>\<open>start\<close>: \<open>connect_ok\<close> tells whether \<open>sock.connect\<close> returns; if not it raises.\<close>

definition start :: "bool \<Rightarrow> udp \<Rightarrow> error option \<times> udp" where
  "start connect_ok s =
     (if connect_ok then (None, s\<lparr>sock := Some Connected\<rparr>)
      else (Some SocketError, s\<lparr>sock := Some Unconnected\<rparr>))"

text \<open>\<open>STRUCT.pack_into(self.buf, off, ...)\<close> followed by \<open>self.used += STRUCT.size\<close>.\<close>

definition pack_used :: "field list \<Rightarrow> nat \<Rightarrow> udp \<Rightarrow> error option \<times> udp" where
  "pack_used fs off s =
     (case pack_into fs (buf s) off of
        (Some e, b) \<Rightarrow> (Some e, s\<lparr>buf := b\<rparr>)
      | (None, b) \<Rightarrow> (None, s\<lparr>buf := b, used := used s + struct_size fs\<rparr>))"

definition prepare_header :: "int \<Rightarrow> udp \<Rightarrow> error option \<times> udp" where
  "prepare_header ts s =
     (let s1 = s\<lparr>base_timestamp := Some ts\<rparr>
      in pack_used (STRUCT_HEADER (key s1) (seq s1) ts) 0 s1)"

definition rebase :: "int \<Rightarrow> udp \<Rightarrow> error option \<times> udp" where
  "rebase ts s =
     (let s1 = s\<lparr>base_timestamp := Some ts\<rparr>
      in pack_used (STRUCT_REBASE TYPE_REBASE ts) (used s1) s1)"

text \<open>
  \<open>flush\<close>: \<open>send_ok\<close> tells whether the network takes the datagram. A socket that is
  closed or not connected raises \<open>socket.error\<close>, which is swallowed like any other
  send failure; with \<open>self.sock\<close> still \<open>None\<close> the attribute access raises.
\<close>

definition flush :: "bool \<Rightarrow> udp \<Rightarrow> error option \<times> udp" where
  "flush send_ok s =
     (if used s = 0 then (None, s)
      else case sock s of
             None \<Rightarrow> (Some AttributeError, s)
           | Some st \<Rightarrow>
               (None, s\<lparr> wire := wire s @ [(take (used s) (buf s), st = Connected \<and> send_ok)],
                         server_udp_bytes := server_udp_bytes s + used s,
                         used := 0,
                         base_timestamp := None,
                         seq := (seq s + 1) AND 0xffff,
                         count := count s + 1 \<rparr>))"

definition flush_if_full :: "bool \<Rightarrow> udp \<Rightarrow> error option \<times> udp" where
  "flush_if_full send_ok s = (if used s > 1400 then flush send_ok s else (None, s))"

text \<open>With \<open>base_timestamp\<close> still \<open>None\<close> the subtraction raises \<open>TypeError\<close>.\<close>

definition send_mlat :: "message \<Rightarrow> bool \<Rightarrow> udp \<Rightarrow> error option \<times> udp" where
  "send_mlat m send_ok s =
     andthen (if used s = 0 then prepare_header (timestamp m) s else (None, s)) (\<lambda>s1.
       case base_timestamp s1 of
         None \<Rightarrow> (Some TypeError, s1)
       | Some b \<Rightarrow>
           (let delta = timestamp m - b;
                far = \<bar>delta\<bar> > 0x7FFFFFF0
            in andthen (if far then rebase (timestamp m) s1 else (None, s1)) (\<lambda>s2.
                 andthen
                   (if length (payload m) = 7
                    then pack_used
                           (STRUCT_MLAT_SHORT TYPE_MLAT_SHORT
                              (drop_bit 16 (address m))
                              (drop_bit 8 (address m) AND 255)
                              (address m AND 255)
                              (if far then 0 else delta) (payload m))
                           (used s2) s2
                    else pack_used
                           (STRUCT_MLAT_LONG TYPE_MLAT_LONG
                              (drop_bit 16 (address m))
                              (drop_bit 8 (address m) AND 255)
                              (address m AND 255)
                              (if far then 0 else delta) (payload m))
                           (used s2) s2)
                   (flush_if_full send_ok))))"

text \<open>\<open>int((em.timestamp + om.timestamp) / 2)\<close>, evaluated before the call it is passed to.\<close>

definition mean_timestamp :: "message \<Rightarrow> message \<Rightarrow> error + int" where
  "mean_timestamp em om = int_half (timestamp em + timestamp om)"

definition with_mean ::
  "message \<Rightarrow> message \<Rightarrow> (int \<Rightarrow> udp \<Rightarrow> error option \<times> udp) \<Rightarrow> udp \<Rightarrow> error option \<times> udp" where
  "with_mean em om f s = (case mean_timestamp em om of Inl e \<Rightarrow> (Some e, s) | Inr t \<Rightarrow> f t s)"

definition send_sync :: "message \<Rightarrow> message \<Rightarrow> bool \<Rightarrow> udp \<Rightarrow> error option \<times> udp" where
  "send_sync em om send_ok s =
     andthen (if used s = 0 then with_mean em om prepare_header s else (None, s)) (\<lambda>s1.
       andthen
         (if \<bar>timestamp em - timestamp om\<bar> > 0xFFFFFFF0
          then pack_used
                 (STRUCT_ABS_SYNC TYPE_ABS_SYNC
                    (drop_bit 16 (address em))
                    (drop_bit 8 (address em) AND 255)
                    (address em AND 255)
                    (timestamp em) (timestamp om) (payload em) (payload om))
                 (used s1) s1
          else case base_timestamp s1 of
                 None \<Rightarrow> (Some TypeError, s1)
               | Some b \<Rightarrow>
                   (let edelta = timestamp em - b;
                        odelta = timestamp om - b
                    in if \<bar>edelta\<bar> > 0x7FFFFFF0 \<or> \<bar>odelta\<bar> > 0x7FFFFFF0
                       then andthen (with_mean em om rebase s1) (\<lambda>s2.
                              case base_timestamp s2 of
                                None \<Rightarrow> (Some TypeError, s2)
                              | Some b2 \<Rightarrow>
                                  pack_used
                                    (STRUCT_SYNC TYPE_SYNC
                                       (drop_bit 16 (address em))
                                       (drop_bit 8 (address em) AND 255)
                                       (address em AND 255)
                                       (timestamp em - b2) (timestamp om - b2)
                                       (payload em) (payload om))
                                    (used s2) s2)
                       else pack_used
                              (STRUCT_SYNC TYPE_SYNC
                                 (drop_bit 16 (address em))
                                 (drop_bit 8 (address em) AND 255)
                                 (address em AND 255)
                                 edelta odelta (payload em) (payload om))
                              (used s1) s1))
         (flush_if_full send_ok))"

text \<open>\<open>close\<close>: a socket object is always true, so it is closed whenever there is one.\<close>

definition close :: "udp \<Rightarrow> udp" where
  "close s = s\<lparr> used := 0, sock := (case sock s of None \<Rightarrow> None | Some st \<Rightarrow> Some SockClosed) \<rparr>"

subsection \<open>Operations and runs\<close>

text \<open>
  The five operations of the batcher as data, so that a property of "every operation" and
  of every sequence of calls can be stated. A run makes the calls one after the other and
  keeps the object after a call that raised, as a caller that catches the exception would
  see it; it returns what each call raised.
\<close>

datatype udp_op =
    Start bool
  | SendMlat message bool
  | SendSync message message bool
  | Flush bool
  | Close

fun udp_step :: "udp_op \<Rightarrow> udp \<Rightarrow> error option \<times> udp" where
  "udp_step (Start connect_ok) s = start connect_ok s"
| "udp_step (SendMlat m send_ok) s = send_mlat m send_ok s"
| "udp_step (SendSync em om send_ok) s = send_sync em om send_ok s"
| "udp_step (Flush send_ok) s = flush send_ok s"
| "udp_step Close s = (None, close s)"

fun run_ops :: "udp_op list \<Rightarrow> udp \<Rightarrow> error option list \<times> udp" where
  "run_ops [] s = ([], s)"
| "run_ops (c # cs) s =
     (case udp_step c s of (e, s1) \<Rightarrow> (case run_ops cs s1 of (es, s2) \<Rightarrow> (e # es, s2)))"

definition inv_iff :: "udp \<Rightarrow> bool" where
  "inv_iff s = ((used s = 0) = (base_timestamp s = None))"

definition inv_base :: "udp \<Rightarrow> bool" where
  "inv_base s = (used s \<noteq> 0 \<longrightarrow> base_timestamp s \<noteq> None)"

text \<open>
  What the source takes for granted about a message and about the object: a 24-bit
  address and an unsigned 64-bit timestamp; a 32-bit key, and a buffer filled to at most
  1400 bytes between calls.
\<close>

definition valid_message :: "message \<Rightarrow> bool" where
  "valid_message m =
     (0 \<le> address m \<and> address m < 2 ^ 24 \<and> 0 \<le> timestamp m \<and> timestamp m < 2 ^ 64)"

definition wf_udp :: "udp \<Rightarrow> bool" where
  "wf_udp s =
     (length (buf s) = 1500 \<and> used s \<le> 1400 \<and> 0 \<le> key s \<and> key s < 2 ^ 32 \<and>
      0 \<le> seq s \<and> seq s < 2 ^ 16 \<and> inv_base s)"

subsection \<open>The wire format as the specification gives it\<close>

text \<open>
  Section 4.1 of the specification: a tag byte, a 3-byte address, 32-bit deltas or 64-bit
  timestamps, the payloads, all big-endian. These follow the specification's table and
  are compared with what the source packs.
\<close>

definition wire_header :: "int \<Rightarrow> int \<Rightarrow> int \<Rightarrow> byte list" where
  "wire_header k sq ts = be_bytes 4 k @ be_bytes 2 sq @ be_bytes 8 ts"

definition wire_sync :: "int \<Rightarrow> int \<Rightarrow> int \<Rightarrow> byte list \<Rightarrow> byte list \<Rightarrow> byte list" where
  "wire_sync a ed od ep op = 1 # be_bytes 3 a @ be_bytes 4 ed @ be_bytes 4 od @ ep @ op"

definition wire_mlat_short :: "int \<Rightarrow> int \<Rightarrow> byte list \<Rightarrow> byte list" where
  "wire_mlat_short a d p = 2 # be_bytes 3 a @ be_bytes 4 d @ p"

definition wire_mlat_long :: "int \<Rightarrow> int \<Rightarrow> byte list \<Rightarrow> byte list" where
  "wire_mlat_long a d p = 3 # be_bytes 3 a @ be_bytes 4 d @ p"

text \<open>MLAT_SHORT or MLAT_LONG depending on the payload length.\<close>

definition wire_mlat :: "message \<Rightarrow> int \<Rightarrow> byte list" where
  "wire_mlat m d =
     (if length (payload m) = 7 then wire_mlat_short (address m) d (payload m)
      else wire_mlat_long (address m) d (payload m))"

definition wire_rebase :: "int \<Rightarrow> byte list" where
  "wire_rebase ts = 5 # be_bytes 8 ts"

definition wire_abs_sync :: "int \<Rightarrow> int \<Rightarrow> int \<Rightarrow> byte list \<Rightarrow> byte list \<Rightarrow> byte list" where
  "wire_abs_sync a et ot ep op = 6 # be_bytes 3 a @ be_bytes 8 et @ be_bytes 8 ot @ ep @ op"

subsection \<open>Strings: split, join, integers\<close>

text \<open>
  A byte of the pipe is a \<open>char\<close>, so that \<open>bytes\<close> read from it and the \<open>str\<close> they
  decode to are both \<open>string\<close>; \<open>decode('ascii')\<close> and \<open>encode('ascii')\<close> fail on a
  character of 128 or more. \<open>split_on sep s\<close> is \<open>s.split(sep)\<close> for a separator of
  one character: the empty string gives one empty piece.
\<close>

definition TAB :: char where "TAB = CHR 0x09"
definition NL :: char where "NL = CHR 0x0A"
definition SP :: char where "SP = CHR 0x20"

fun split_on :: "'a \<Rightarrow> 'a list \<Rightarrow> 'a list list" where
  "split_on sep [] = [[]]"
| "split_on sep (x # xs) =
     (if x = sep then [] # split_on sep xs
      else case split_on sep xs of
             [] \<Rightarrow> [[x]]
           | l # ls \<Rightarrow> (x # l) # ls)"

declare split_on.simps [simp del]

fun join :: "'a list \<Rightarrow> 'a list list \<Rightarrow> 'a list" where
  "join sep [] = []"
| "join sep [x] = x"
| "join sep (x # y # ys) = x @ sep @ join sep (y # ys)"

definition is_ascii :: "string \<Rightarrow> bool" where
  "is_ascii s = list_all (\<lambda>c. (of_char c :: nat) < 128) s"

definition decode_ascii :: "string \<Rightarrow> error + string" where
  "decode_ascii bs = (if is_ascii bs then Inr bs else Inl UnicodeDecodeError)"


text \<open>
  \<open>int(s, base)\<close> for base 10 and 16 on an ASCII string: white space around, an optional
  sign, for base 16 an optional \<open>0x\<close> or \<open>0X\<close> (which one underscore may follow), then
  digits with single underscores between them. The limit on the number of decimal
  digits that recent interpreters apply (4300 by default) is a setting of the
  interpreter and is left out.
\<close>

definition is_space :: "char \<Rightarrow> bool" where
  "is_space c = (c \<in> {CHR 0x09, CHR 0x0A, CHR 0x0B, CHR 0x0C, CHR 0x0D, CHR 0x20})"

definition strip :: "string \<Rightarrow> string" where
  "strip s = rev (dropWhile is_space (rev (dropWhile is_space s)))"

definition digit_value :: "char \<Rightarrow> nat option" where
  "digit_value c =
     (let n = (of_char c :: nat)
      in if 48 \<le> n \<and> n \<le> 57 then Some (n - 48)
         else if 97 \<le> n \<and> n \<le> 122 then Some (n - 87)
         else if 65 \<le> n \<and> n \<le> 90 then Some (n - 55)
         else None)"

text \<open>
  \<open>digits base prev acc s\<close>: the value of the digit string \<open>s\<close>, where \<open>prev\<close> tells
  whether the previous character was a digit (an underscore is allowed only then, and
  not at the end).
\<close>

fun digits :: "nat \<Rightarrow> bool \<Rightarrow> nat \<Rightarrow> string \<Rightarrow> nat option" where
  "digits base prev acc [] = (if prev then Some acc else None)"
| "digits base prev acc (c # cs) =
     (if c = CHR ''_'' then (if prev then digits base False acc cs else None)
      else case digit_value c of
             None \<Rightarrow> None
           | Some d \<Rightarrow> if d < base then digits base True (acc * base + d) cs else None)"

definition py_int :: "nat \<Rightarrow> string \<Rightarrow> error + int" where
  "py_int base s =
     (let t = strip s;
          neg = (t \<noteq> [] \<and> hd t = CHR ''-'');
          t1 = (if t \<noteq> [] \<and> (hd t = CHR ''+'' \<or> hd t = CHR ''-'') then tl t else t);
          t2 = (if base = 16 \<and> (take 2 t1 = ''0x'' \<or> take 2 t1 = ''0X'')
                then (if take 1 (drop 2 t1) = ''_'' then drop 3 t1 else drop 2 t1)
                else t1)
      in case digits base False 0 t2 of
           None \<Rightarrow> Inl ValueError
         | Some n \<Rightarrow> Inr (if neg then - int n else int n))"

text \<open>\<open>str(n)\<close> for an integer: decimal digits, with a minus sign if negative.\<close>

definition digit_char :: "nat \<Rightarrow> char" where
  "digit_char d = ''0123456789abcdef'' ! d"

function str_nat :: "nat \<Rightarrow> string" where
  "str_nat n = (if n < 10 then [digit_char n] else str_nat (n div 10) @ [digit_char (n mod 10)])"
  by pat_completeness auto
termination
  by (relation "measure id") auto

declare str_nat.simps [simp del]

definition str_int :: "int \<Rightarrow> string" where
  "str_int i = (if i < 0 then CHR ''-'' # str_nat (nat (- i)) else str_nat (nat i))"

subsection \<open>AdeptReader\<close>

text \<open>
  The coordinator is outside this file. A call of one of its methods is recorded in
  \<open>calls\<close>; whether the call returns or raises is given by \<open>coord\<close>, a function of the
  calls made before and of the call itself. \<open>float(s)\<close> is the parameter \<open>fl\<close>, with
  \<open>None\<close> where it raises \<open>ValueError\<close>.
\<close>

datatype 'f coord_call =
    ServerStartSending "int set"
  | ServerStopSending "int set"
  | ServerMlatResult int 'f 'f 'f 'f 'f 'f
  | ServerDisconnected

text \<open>
  \<open>rx_bytes\<close> is \<open>stats.global_stats.server_rx_bytes\<close>, \<open>conn_state\<close> is
  \<open>connection.state\<close> and \<open>conn_closed\<close> is \<open>connection.closed\<close>, \<open>logged\<close> counts
  the calls of \<open>util.log_exc\<close> and \<open>disconnects\<close> those of \<open>connection.disconnect\<close>.
\<close>

record 'f reader =
  partial_line :: string
  closed :: bool
  rx_bytes :: nat
  conn_state :: string
  conn_closed :: bool
  calls :: "'f coord_call list"
  logged :: nat
  disconnects :: nat

type_synonym 'f coordinator = "'f coord_call list \<Rightarrow> 'f coord_call \<Rightarrow> error option"

definition dispatch :: "'f coordinator \<Rightarrow> 'f coord_call \<Rightarrow> 'f reader \<Rightarrow> error option \<times> 'f reader" where
  "dispatch coord c rd = (coord (calls rd) c, rd\<lparr>calls := calls rd @ [c]\<rparr>)"

text \<open>\<open>fields[0::2]\<close>, \<open>fields[1::2]\<close> and \<open>dict(pairs)\<close>: a later pair replaces an earlier one.\<close>

fun evens :: "'a list \<Rightarrow> 'a list" where
  "evens [] = []"
| "evens [x] = [x]"
| "evens (x # y # xs) = x # evens xs"

fun odds :: "'a list \<Rightarrow> 'a list" where
  "odds [] = []"
| "odds [x] = []"
| "odds (x # y # xs) = y # odds xs"

definition dict :: "('k \<times> 'v) list \<Rightarrow> ('k \<rightharpoonup> 'v)" where
  "dict ps = foldl (\<lambda>m (k, v). m(k \<mapsto> v)) Map.empty ps"

definition parse_message :: "string \<Rightarrow> (string \<rightharpoonup> string)" where
  "parse_message line = (let fields = split_on TAB line in dict (zip (evens fields) (odds fields)))"

text \<open>\<open>message[k]\<close> raises \<open>KeyError\<close> for a missing key.\<close>

definition getitem :: "(string \<rightharpoonup> string) \<Rightarrow> string \<Rightarrow> error + string" where
  "getitem message k = (case message k of None \<Rightarrow> Inl KeyError | Some v \<Rightarrow> Inr v)"

definition bind_err :: "error + 'a \<Rightarrow> ('a \<Rightarrow> error + 'b) \<Rightarrow> error + 'b" where
  "bind_err r f = (case r of Inl e \<Rightarrow> Inl e | Inr v \<Rightarrow> f v)"

text \<open>\<open>{int(x, 16) for x in s.split(' ')}\<close>: the first token that is no number raises.\<close>

fun int16_all :: "string list \<Rightarrow> error + int list" where
  "int16_all [] = Inr []"
| "int16_all (t # ts) =
     bind_err (py_int 16 t) (\<lambda>i. bind_err (int16_all ts) (\<lambda>is. Inr (i # is)))"

definition hexid_set :: "(string \<rightharpoonup> string) \<Rightarrow> error + int set" where
  "hexid_set message =
     bind_err (getitem message ''hexids'') (\<lambda>h.
       if h = [] then Inr {}
       else bind_err (int16_all (split_on SP h)) (\<lambda>is. Inr (set is)))"

definition process_wanted_message ::
  "'f coordinator \<Rightarrow> (string \<rightharpoonup> string) \<Rightarrow> 'f reader \<Rightarrow> error option \<times> 'f reader" where
  "process_wanted_message coord message rd =
     (case hexid_set message of
        Inl e \<Rightarrow> (Some e, rd)
      | Inr wanted \<Rightarrow> dispatch coord (ServerStartSending wanted) rd)"

definition process_unwanted_message ::
  "'f coordinator \<Rightarrow> (string \<rightharpoonup> string) \<Rightarrow> 'f reader \<Rightarrow> error option \<times> 'f reader" where
  "process_unwanted_message coord message rd =
     (case hexid_set message of
        Inl e \<Rightarrow> (Some e, rd)
      | Inr unwanted \<Rightarrow> dispatch coord (ServerStopSending unwanted) rd)"

definition getfloat :: "(string \<Rightarrow> 'f option) \<Rightarrow> (string \<rightharpoonup> string) \<Rightarrow> string \<Rightarrow> error + 'f" where
  "getfloat fl message k =
     bind_err (getitem message k) (\<lambda>v. case fl v of None \<Rightarrow> Inl ValueError | Some x \<Rightarrow> Inr x)"

text \<open>The keyword arguments are evaluated in the order they are written.\<close>

definition process_result_message ::
  "(string \<Rightarrow> 'f option) \<Rightarrow> 'f coordinator \<Rightarrow> (string \<rightharpoonup> string) \<Rightarrow> 'f reader
   \<Rightarrow> error option \<times> 'f reader" where
  "process_result_message fl coord message rd =
     (case bind_err (bind_err (getitem message ''hexid'') (py_int 16)) (\<lambda>addr.
           bind_err (getfloat fl message ''lat'') (\<lambda>lat.
           bind_err (getfloat fl message ''lon'') (\<lambda>lon.
           bind_err (getfloat fl message ''alt'') (\<lambda>alt.
           bind_err (getfloat fl message ''nsvel'') (\<lambda>nsvel.
           bind_err (getfloat fl message ''ewvel'') (\<lambda>ewvel.
           bind_err (getfloat fl message ''fpm'') (\<lambda>vrate.
             Inr (ServerMlatResult addr lat lon alt nsvel ewvel vrate)))))))) of
        Inl e \<Rightarrow> (Some e, rd)
      | Inr c \<Rightarrow> dispatch coord c rd)"

text \<open>
  \<open>message.get('receiver_sync_count', 0)\<close> is the integer 0 when the key is missing, and
  \<open>int\<close> of it is 0.
\<close>

definition process_status_message ::
  "(string \<rightharpoonup> string) \<Rightarrow> 'f reader \<Rightarrow> error option \<times> 'f reader" where
  "process_status_message message rd =
     (let s = (case message ''status'' of None \<Rightarrow> ''unknown'' | Some v \<Rightarrow> v)
      in case (case message ''receiver_sync_count'' of None \<Rightarrow> Inr 0 | Some v \<Rightarrow> py_int 10 v) of
           Inl e \<Rightarrow> (Some e, rd)
         | Inr r \<Rightarrow>
             (None,
              rd\<lparr>conn_state :=
                    (if s = ''ok'' then ''synchronized with '' @ str_int r @ '' nearby receivers''
                     else if s = ''unstable'' then ''clock unstable''
                     else if s = ''no_sync'' then ''not synchronized with any nearby receivers''
                     else s @ '' '' @ str_int r)\<rparr>))"

text \<open>\<open>self.handlers.get(message['type'])\<close>, with \<open>None\<close> for an unknown type.\<close>

definition process_line ::
  "(string \<Rightarrow> 'f option) \<Rightarrow> 'f coordinator \<Rightarrow> string \<Rightarrow> 'f reader \<Rightarrow> error option \<times> 'f reader" where
  "process_line fl coord line rd =
     (let message = parse_message line
      in case getitem message ''type'' of
           Inl e \<Rightarrow> (Some e, rd)
         | Inr t \<Rightarrow>
             if t = ''mlat_wanted'' then process_wanted_message coord message rd
             else if t = ''mlat_unwanted'' then process_unwanted_message coord message rd
             else if t = ''mlat_result'' then process_result_message fl coord message rd
             else if t = ''mlat_status'' then process_status_message message rd
             else (None, rd))"

text \<open>
  \<open>IOError\<close> and \<open>socket.error\<close> are both \<open>OSError\<close>: \<open>except IOError: raise\<close> lets
  them through, every other exception is logged.
\<close>

definition is_oserror :: "error \<Rightarrow> bool" where
  "is_oserror e = (e = IOError \<or> e = SocketError)"

text \<open>
  \<open>AdeptConnection.disconnect\<close>, as far as it acts on the state kept here: the first
  call marks the connection closed, sets its state to \<open>closed\<close> and, last, calls
  \<open>coordinator.server_disconnected()\<close>, which may raise. In between it closes the
  reader, which is closed already when the call comes from \<open>AdeptReader.close\<close>, and
  the writer and the UDP transport, which are objects of their own. A later call does
  nothing.
\<close>

definition disconnect :: "'f coordinator \<Rightarrow> 'f reader \<Rightarrow> error option \<times> 'f reader" where
  "disconnect coord rd =
     (let rd1 = rd\<lparr>disconnects := disconnects rd + 1\<rparr>
      in if conn_closed rd1 then (None, rd1)
         else dispatch coord ServerDisconnected (rd1\<lparr>conn_closed := True, conn_state := ''closed''\<rparr>))"

text \<open>\<open>AdeptReader.close\<close>.\<close>

definition reader_close :: "'f coordinator \<Rightarrow> 'f reader \<Rightarrow> error option \<times> 'f reader" where
  "reader_close coord rd =
     (if closed rd then (None, rd) else disconnect coord (rd\<lparr>closed := True\<rparr>))"

text \<open>The body of the loop over \<open>lines[:-1]\<close>, and the loop.\<close>

definition process_one ::
  "(string \<Rightarrow> 'f option) \<Rightarrow> 'f coordinator \<Rightarrow> string \<Rightarrow> 'f reader \<Rightarrow> error option \<times> 'f reader" where
  "process_one fl coord line rd =
     (case (case decode_ascii line of
              Inl e \<Rightarrow> (Some e, rd)
            | Inr text \<Rightarrow> process_line fl coord text rd) of
        (None, rd1) \<Rightarrow> (None, rd1)
      | (Some e, rd1) \<Rightarrow>
          if is_oserror e then (Some e, rd1) else (None, rd1\<lparr>logged := logged rd1 + 1\<rparr>))"

fun process_lines ::
  "(string \<Rightarrow> 'f option) \<Rightarrow> 'f coordinator \<Rightarrow> string list \<Rightarrow> 'f reader \<Rightarrow> error option \<times> 'f reader" where
  "process_lines fl coord [] rd = (None, rd)"
| "process_lines fl coord (l # ls) rd =
     (case process_one fl coord l rd of
        (None, rd1) \<Rightarrow> process_lines fl coord ls rd1
      | (Some e, rd1) \<Rightarrow> (Some e, rd1))"

text \<open>What \<open>self.recv(16384)\<close> does: it returns bytes, or raises \<open>EAGAIN\<close> or another error.\<close>

datatype recv_result = Data string | Again | RecvError

definition handle_read ::
  "(string \<Rightarrow> 'f option) \<Rightarrow> 'f coordinator \<Rightarrow> recv_result \<Rightarrow> 'f reader \<Rightarrow> error option \<times> 'f reader" where
  "handle_read fl coord r rd =
     (case r of
        Again \<Rightarrow> (None, rd)
      | RecvError \<Rightarrow> (Some SocketError, rd)
      | Data moredata \<Rightarrow>
          if moredata = [] then reader_close coord rd
          else
            (let rd1 = rd\<lparr>rx_bytes := rx_bytes rd + length moredata\<rparr>;
                 lines = split_on NL (partial_line rd @ moredata)
             in case process_lines fl coord (butlast lines) rd1 of
                  (None, rd2) \<Rightarrow> (None, rd2\<lparr>partial_line := last lines\<rparr>)
                | (Some e, rd2) \<Rightarrow> (Some e, rd2)))"

text \<open>
  The reactor calls \<open>handle_read\<close> once per chunk, until a call raises (the exception
  ends the connection).
\<close>

fun feed ::
  "(string \<Rightarrow> 'f option) \<Rightarrow> 'f coordinator \<Rightarrow> string list \<Rightarrow> 'f reader \<Rightarrow> error option \<times> 'f reader" where
  "feed fl coord [] rd = (None, rd)"
| "feed fl coord (c # cs) rd =
     (case handle_read fl coord (Data c) rd of
        (None, rd1) \<Rightarrow> feed fl coord cs rd1
      | (Some e, rd1) \<Rightarrow> (Some e, rd1))"

definition new_reader :: "'f reader" where
  "new_reader = \<lparr>partial_line = [], closed = False, rx_bytes = 0, conn_state = ''connected'',
                  conn_closed = False, calls = [], logged = 0, disconnects = 0\<rparr>"

subsection \<open>AdeptWriter\<close>

text \<open>
  \<open>'{:06X}'.format(i)\<close> and \<open>'{:012x}'.format(i)\<close>: hexadecimal digits of the absolute
  value, upper or lower case, a minus sign for a negative number, and zeros between sign
  and digits up to the width.
\<close>

definition hex_char :: "bool \<Rightarrow> nat \<Rightarrow> char" where
  "hex_char upper d = (if upper then ''0123456789ABCDEF'' ! d else ''0123456789abcdef'' ! d)"

function hex_nat :: "bool \<Rightarrow> nat \<Rightarrow> string" where
  "hex_nat upper n =
     (if n < 16 then [hex_char upper n]
      else hex_nat upper (n div 16) @ [hex_char upper (n mod 16)])"
  by pat_completeness auto
termination
  by (relation "measure snd") auto

declare hex_nat.simps [simp del]





















subsection \<open>Statements about results\<close>

text \<open>
  \<open>always P r\<close>: the object satisfies \<open>P\<close> after the call, whether it returned or raised;
  \<open>normally P r\<close>: it satisfies \<open>P\<close> if the call returned. \<open>bounded\<close> is the safety
  property of the buffer: it has its 1500 bytes and \<open>used\<close> lies within it.
\<close>

definition always :: "('s \<Rightarrow> bool) \<Rightarrow> error option \<times> 's \<Rightarrow> bool" where
  "always P r = P (snd r)"

definition normally :: "('s \<Rightarrow> bool) \<Rightarrow> error option \<times> 's \<Rightarrow> bool" where
  "normally P r = (fst r = None \<longrightarrow> P (snd r))"

definition bounded :: "udp \<Rightarrow> bool" where
  "bounded s = (length (buf s) = 1500 \<and> used s \<le> 1500)"

definition has_base :: "udp \<Rightarrow> bool" where
  "has_base s = (base_timestamp s \<noteq> None)"

text \<open>
  \<open>open_dgram\<close>: a datagram has been started. \<open>below_threshold\<close>: the fill level
  that \<open>send_mlat\<close> and \<open>send_sync\<close> leave behind. \<open>room n\<close>: the buffer has its
  1500 bytes and is filled to at most \<open>n\<close>; \<open>fits n r\<close>: the call did not fail for lack
  of room in the buffer, and left it filled to at most \<open>n\<close>.
\<close>

definition open_dgram :: "udp \<Rightarrow> bool" where
  "open_dgram s = (base_timestamp s \<noteq> None \<and> used s \<noteq> 0)"

definition below_threshold :: "udp \<Rightarrow> bool" where
  "below_threshold s = (used s \<le> 1400)"

definition room :: "nat \<Rightarrow> udp \<Rightarrow> bool" where
  "room n s = (length (buf s) = 1500 \<and> used s \<le> n)"

definition fits :: "nat \<Rightarrow> error option \<times> udp \<Rightarrow> bool" where
  "fits n r = (fst r \<noteq> Some (StructError BufferTooSmall) \<and> room n (snd r))"

text \<open>The MLAT submessage of \<open>send_mlat\<close>, as one step.\<close>

definition mlat_step :: "message \<Rightarrow> int \<Rightarrow> udp \<Rightarrow> error option \<times> udp" where
  "mlat_step m d s =
     (if length (payload m) = 7
      then pack_used (STRUCT_MLAT_SHORT TYPE_MLAT_SHORT (drop_bit 16 (address m))
             (drop_bit 8 (address m) AND 255) (address m AND 255) d (payload m)) (used s) s
      else pack_used (STRUCT_MLAT_LONG TYPE_MLAT_LONG (drop_bit 16 (address m))
             (drop_bit 8 (address m) AND 255) (address m AND 255) d (payload m)) (used s) s)"

text \<open>
  \<open>visible\<close>: the reader without its partial line and its byte count, that is, all that
  processing lines can change. \<open>same_outcome\<close>: two runs of the reader raised the same,
  did the same to all that lines can change, and, if they returned, ended in the same reader.
\<close>

definition visible :: "'f reader \<Rightarrow> 'f reader" where
  "visible rd = rd\<lparr>partial_line := [], rx_bytes := 0\<rparr>"

definition same_outcome :: "error option \<times> 'f reader \<Rightarrow> error option \<times> 'f reader \<Rightarrow> bool" where
  "same_outcome r1 r2 =
     (fst r1 = fst r2 \<and> visible (snd r1) = visible (snd r2) \<and> (fst r1 = None \<longrightarrow> snd r1 = snd r2))"

text \<open>
  \<open>filled u s\<close>: the batcher with key 7 is connected, has sent no datagram yet, and its
  buffer is filled to \<open>u\<close>.
\<close>

definition filled :: "nat \<Rightarrow> udp \<Rightarrow> bool" where
  "filled u s =
     (length (buf s) = 1500 \<and> used s = u \<and> key s = 7 \<and> seq s = 0 \<and> wire s = [] \<and> count s = 0 \<and>
      sock s = Some Connected)"

subsection \<open>Sample values\<close>

text \<open>A short message, as an upstream decoder would hand it over, for the concrete runs below.\<close>

definition m0 :: message where
  "m0 = \<lparr>address = 0xABCDEF, timestamp = 1000, payload = [1, 2, 3, 4, 5, 6, 7], df = 11\<rparr>"



text \<open>
  A sync pair late in the 64-bit range of the timer: both timestamps are valid unsigned
  64-bit values and lie \<open>0xFFFFFFF0\<close> apart, so the pair is to be sent as SYNC, not
  ABS_SYNC.
\<close>

definition em1 :: message where
  "em1 = \<lparr>address = 0xABCDEF, timestamp = 2 ^ 63 + 0xFFFFFFF0 + 100,
           payload = replicate 14 1, df = 17\<rparr>"

definition om1 :: message where
  "om1 = \<lparr>address = 0xABCDEF, timestamp = 2 ^ 63 + 100, payload = replicate 14 2, df = 17\<rparr>"

text \<open>
  A long message at the base timestamp of the runs below, and the run that fills the
  buffer to exactly 1400 bytes without flushing: the header and 63 MLAT_LONG submessages,
  \<open>14 + 63 * 22\<close>.
\<close>

definition ml0 :: message where
  "ml0 = \<lparr>address = 0xABCDEF, timestamp = 1000, payload = replicate 14 3, df = 17\<rparr>"

definition full_ops :: "udp_op list" where
  "full_ops = Start True # replicate 63 (SendMlat ml0 True)"

definition wanted_line :: string where
  "wanted_line = join [TAB] [''type'', ''mlat_wanted'', ''hexids'', ''ABCDEF 123456'']"

definition wanted_none_line :: string where
  "wanted_none_line = join [TAB] [''type'', ''mlat_wanted'', ''hexids'', '''']"

definition odd_line :: string where
  "odd_line = join [TAB] [''type'', ''mlat_x'', ''type'', ''mlat_y'', ''junk'']"

text \<open>A coordinator whose methods always return, and a \<open>float\<close> that is never asked.\<close>

definition coord_ok :: "nat coordinator" where
  "coord_ok cs c = None"

definition no_float :: "string \<Rightarrow> nat option" where
  "no_float s = None"

text \<open>The line \<open>wanted_line\<close> with its newline, one byte per chunk.\<close>

definition byte_chunks :: "string list" where
  "byte_chunks = map (\<lambda>c. [c]) (wanted_line @ [NL])"




section \<open>Properties\<close>

subsection \<open>Bytes and buffers\<close>

lemma length_be_bytes [simp]: "length (be_bytes n v) = n"
  by (induction n arbitrary: v) auto





lemma pack_field_length: "pack_field f = Some bs \<Longrightarrow> length bs = field_size f"
  by (cases f) (auto split: if_splits)

lemma pack_length: "pack fs = Some bs \<Longrightarrow> length bs = struct_size fs"
  by (induction fs arbitrary: bs) (auto split: option.splits dest: pack_field_length)

lemma length_write_at: "off + length bs \<le> length b \<Longrightarrow> length (write_at b off bs) = length b"
  by (simp add: write_at_def)



lemma length_spill [simp]: "length (spill f) = field_size f"
  by (cases f) simp_all

lemma length_pack_partial [simp]: "length (pack_partial fs) = struct_size fs"
  by (induction fs) (auto simp: pack_field_length split: option.splits)

lemma length_write_at_partial:
  "off + struct_size fs \<le> length b \<Longrightarrow> length (write_at b off (pack_partial fs)) = length b"
  by (simp add: length_write_at)

lemma length_write_at_pack:
  "pack fs = Some bs \<Longrightarrow> off + struct_size fs \<le> length b \<Longrightarrow> length (write_at b off bs) = length b"
  by (simp add: length_write_at pack_length)

lemma and_ffff: "(x::int) AND 0xffff = x mod 2 ^ 16"
proof -
  have "(0xffff::int) = mask 16" by (simp add: mask_eq_exp_minus_1)
  then show ?thesis by (simp only: take_bit_eq_mod flip: take_bit_eq_mask)
qed

subsection \<open>flush and close\<close>

text \<open>
  C6. \<open>flush\<close> on an empty buffer changes nothing. On a non-empty buffer, once the socket
  exists, it makes exactly one call of \<open>sock.send\<close> with the occupied part of the buffer
  and never raises, whether the send succeeds or not (a closed or unconnected socket, or
  a refusing network); the byte counter grows by the occupied length, \<open>used\<close> is 0,
  \<open>base_timestamp\<close> is \<open>None\<close>, the sequence number is the old one plus 1 modulo
  \<open>2 ^ 16\<close> and the datagram counter is one more.
\<close>

theorem flush_effect:
  "(used s = 0 \<longrightarrow> flush send_ok s = (None, s)) \<and>
   (used s \<noteq> 0 \<and> sock s = Some st \<longrightarrow>
      fst (flush send_ok s) = None \<and>
      wire (snd (flush send_ok s)) = wire s @ [(take (used s) (buf s), st = Connected \<and> send_ok)] \<and>
      server_udp_bytes (snd (flush send_ok s)) = server_udp_bytes s + used s \<and>
      used (snd (flush send_ok s)) = 0 \<and>
      base_timestamp (snd (flush send_ok s)) = None \<and>
      seq (snd (flush send_ok s)) = (seq s + 1) mod 2 ^ 16 \<and>
      count (snd (flush send_ok s)) = count s + 1 \<and>
      buf (snd (flush send_ok s)) = buf s \<and>
      sock (snd (flush send_ok s)) = sock s \<and>
      key (snd (flush send_ok s)) = key s)"
  by (simp add: flush_def and_ffff)

theorem flush_effect_witness:
  "used ((init [] 0 7)\<lparr>used := 14, seq := 65535, sock := Some SockClosed\<rparr>) \<noteq> 0 \<and>
   fst (flush True ((init [] 0 7)\<lparr>used := 14, seq := 65535, sock := Some SockClosed\<rparr>)) = None \<and>
   seq (snd (flush True ((init [] 0 7)\<lparr>used := 14, seq := 65535, sock := Some SockClosed\<rparr>))) = 0 \<and>
   wire (snd (flush True ((init [] 0 7)\<lparr>used := 14, seq := 65535, sock := Some SockClosed\<rparr>)))
     = [(replicate 14 0, False)] \<and>
   flush True (init [] 0 7) = (None, init [] 0 7)"
  using flush_effect [of "(init [] 0 7)\<lparr>used := 14, seq := 65535, sock := Some SockClosed\<rparr>" True SockClosed]
    flush_effect [of "init [] 0 7" True SockClosed]
  by (simp add: init_def)

text \<open>
  C9. After \<open>close\<close>, \<open>used\<close> is 0; no call of \<open>sock.send\<close> is made for what was
  batched, and the sequence number, the datagram counter and the byte counter are what
  they were.
\<close>

theorem close_discards:
  "used (close s) = 0 \<and> wire (close s) = wire s \<and> seq (close s) = seq s \<and>
   count (close s) = count s \<and> server_udp_bytes (close s) = server_udp_bytes s"
  by (simp add: close_def)

lemma pack_used_eq:
  "pack_used fs off s =
     (if length (buf s) < off + struct_size fs then (Some (StructError BufferTooSmall), s)
      else case pack fs of
             None \<Rightarrow> (Some (StructError OutOfRange), s\<lparr>buf := write_at (buf s) off (pack_partial fs)\<rparr>)
           | Some bs \<Rightarrow> (None, s\<lparr>buf := write_at (buf s) off bs, used := used s + struct_size fs\<rparr>))"
  by (simp add: pack_used_def pack_into_def split: option.splits)

lemma andthen_simps [simp]:
  "andthen (None, s) f = f s"
  "andthen (Some e, s) f = (Some e, s)"
  by (simp_all add: andthen_def)

lemma always_simp [simp]: "always P (e, s) = P s"
  by (simp add: always_def)

lemma normally_simps [simp]: "normally P (None, s) = P s" "normally P (Some e, s) = True"
  by (simp_all add: normally_def)

lemma always_andthenI:
  assumes "always Q r" "\<And>s. Q s \<Longrightarrow> P s" "\<And>s. Q s \<Longrightarrow> always P (f s)"
  shows "always P (andthen r f)"
  using assms by (cases r) (auto simp: andthen_def split: option.splits)

lemma normally_andthenI:
  assumes "normally Q r" "\<And>s. Q s \<Longrightarrow> normally P (f s)"
  shows "normally P (andthen r f)"
  using assms by (cases r) (auto simp: andthen_def split: option.splits)

lemma res_ifI: "(c \<Longrightarrow> G a) \<Longrightarrow> (\<not> c \<Longrightarrow> G b) \<Longrightarrow> G (if c then a else b)"
  by simp

lemma res_optionI:
  "(x = None \<Longrightarrow> G a) \<Longrightarrow> (\<And>y. x = Some y \<Longrightarrow> G (b y)) \<Longrightarrow>
   G (case x of None \<Rightarrow> a | Some y \<Rightarrow> b y)"
  by (cases x) simp_all

lemma res_LetI: "G (f x) \<Longrightarrow> G (Let x f)"
  by simp

lemma always_with_meanI:
  "P s \<Longrightarrow> (\<And>t. always P (f t s)) \<Longrightarrow> always P (with_mean em om f s)"
  by (simp add: with_mean_def split: sum.splits)

lemma normally_with_meanI:
  "(\<And>t. normally P (f t s)) \<Longrightarrow> normally P (with_mean em om f s)"
  by (simp add: with_mean_def split: sum.splits)

subsection \<open>bounded\<close>

lemma pack_used_bounded:
  "bounded s \<Longrightarrow> always bounded (pack_used fs (used s) s)"
  by (auto simp: pack_used_eq bounded_def length_write_at_pack length_write_at_partial
      split: option.splits)

lemma flush_bounded: "bounded s \<Longrightarrow> always bounded (flush ok s)"
  by (auto simp: flush_def bounded_def split: option.splits)

lemma flush_if_full_bounded: "bounded s \<Longrightarrow> always bounded (flush_if_full ok s)"
  by (simp add: flush_if_full_def flush_bounded)

lemma bounded_base [simp]: "bounded (s\<lparr>base_timestamp := b\<rparr>) = bounded s"
  by (simp add: bounded_def)

lemma prepare_header_bounded: "used s = 0 \<Longrightarrow> bounded s \<Longrightarrow> always bounded (prepare_header ts s)"
  using pack_used_bounded [of "s\<lparr>base_timestamp := Some ts\<rparr>"]
  by (simp add: prepare_header_def Let_def)

lemma rebase_bounded: "bounded s \<Longrightarrow> always bounded (rebase ts s)"
  using pack_used_bounded [of "s\<lparr>base_timestamp := Some ts\<rparr>"]
  by (simp add: rebase_def Let_def)

lemmas bounded_intros =
  always_andthenI [where P = bounded and Q = bounded]
  res_ifI [where G = "always bounded"]
  res_optionI [where G = "always bounded"]
  res_LetI [where G = "always bounded"]
  always_with_meanI [where P = bounded]
  pack_used_bounded flush_if_full_bounded prepare_header_bounded rebase_bounded

lemma send_mlat_bounded: "bounded s \<Longrightarrow> always bounded (send_mlat m ok s)"
  unfolding send_mlat_def
  by (intro bounded_intros) simp_all

lemma send_sync_bounded: "bounded s \<Longrightarrow> always bounded (send_sync em om ok s)"
  unfolding send_sync_def
  by (intro bounded_intros) simp_all

lemma udp_step_bounded: "bounded s \<Longrightarrow> always bounded (udp_step c s)"
  by (cases c)
     (simp_all add: send_mlat_bounded send_sync_bounded flush_bounded,
      simp_all add: start_def close_def bounded_def)

subsection \<open>inv_base\<close>

lemma always_andthenI2:
  assumes "normally Q r" "always P r" "\<And>s. Q s \<Longrightarrow> always P (f s)"
  shows "always P (andthen r f)"
  using assms by (cases r) (auto simp: andthen_def split: option.splits)

lemma has_base_inv_base: "has_base s \<Longrightarrow> inv_base s"
  by (simp add: has_base_def inv_base_def)

lemma pack_used_has_base: "has_base s \<Longrightarrow> normally has_base (pack_used fs off s)"
  by (auto simp: pack_used_eq has_base_def split: option.splits)

lemma pack_used_inv_base: "has_base s \<Longrightarrow> always inv_base (pack_used fs off s)"
  by (auto simp: pack_used_eq has_base_def inv_base_def split: option.splits)

lemma prepare_header_has_base: "normally has_base (prepare_header ts s)"
  using pack_used_has_base [of "s\<lparr>base_timestamp := Some ts\<rparr>"]
  by (simp add: prepare_header_def Let_def has_base_def)

lemma prepare_header_inv_base: "always inv_base (prepare_header ts s)"
  using pack_used_inv_base [of "s\<lparr>base_timestamp := Some ts\<rparr>"]
  by (simp add: prepare_header_def Let_def has_base_def)

lemma rebase_has_base: "normally has_base (rebase ts s)"
  using pack_used_has_base [of "s\<lparr>base_timestamp := Some ts\<rparr>"]
  by (simp add: rebase_def Let_def has_base_def)

lemma rebase_inv_base: "always inv_base (rebase ts s)"
  using pack_used_inv_base [of "s\<lparr>base_timestamp := Some ts\<rparr>"]
  by (simp add: rebase_def Let_def has_base_def)

lemma flush_inv_base: "inv_base s \<Longrightarrow> always inv_base (flush ok s)"
  by (auto simp: flush_def inv_base_def split: option.splits)

lemma flush_if_full_inv_base: "has_base s \<Longrightarrow> always inv_base (flush_if_full ok s)"
  using flush_inv_base [of s ok] by (simp add: flush_if_full_def has_base_inv_base)

lemmas has_base_intros =
  normally_andthenI [where P = has_base and Q = has_base]
  res_ifI [where G = "normally has_base"]
  res_optionI [where G = "normally has_base"]
  res_LetI [where G = "normally has_base"]
  normally_with_meanI [where P = has_base]
  pack_used_has_base prepare_header_has_base rebase_has_base

lemmas inv_base_intros =
  always_andthenI2 [where P = inv_base and Q = has_base]
  res_ifI [where G = "always inv_base"]
  res_optionI [where G = "always inv_base"]
  res_LetI [where G = "always inv_base"]
  always_with_meanI [where P = inv_base]
  pack_used_inv_base flush_if_full_inv_base prepare_header_inv_base rebase_inv_base

lemma send_mlat_inv_base: "inv_base s \<Longrightarrow> always inv_base (send_mlat m ok s)"
  unfolding send_mlat_def
  by (intro inv_base_intros has_base_intros) (simp_all add: inv_base_def has_base_def)

lemma send_sync_inv_base: "inv_base s \<Longrightarrow> always inv_base (send_sync em om ok s)"
  unfolding send_sync_def
  by (intro inv_base_intros has_base_intros) (simp_all add: inv_base_def has_base_def)

lemma udp_step_inv_base: "inv_base s \<Longrightarrow> always inv_base (udp_step c s)"
  by (cases c)
     (simp_all add: send_mlat_inv_base send_sync_inv_base flush_inv_base,
      simp_all add: start_def close_def inv_base_def)

subsection \<open>inv_iff and the threshold on return\<close>

lemma struct_sizes [simp]:
  "struct_size (STRUCT_HEADER k sq ts) = 14"
  "struct_size (STRUCT_SYNC t a2 a1 a0 ed od eb ob) = 40"
  "struct_size (STRUCT_MLAT_SHORT t a2 a1 a0 d b) = 15"
  "struct_size (STRUCT_MLAT_LONG t a2 a1 a0 d b) = 22"
  "struct_size (STRUCT_REBASE t ts) = 9"
  "struct_size (STRUCT_ABS_SYNC t a2 a1 a0 et ot eb ob) = 48"
  by (simp_all add: STRUCT_HEADER_def STRUCT_SYNC_def STRUCT_MLAT_SHORT_def
      STRUCT_MLAT_LONG_def STRUCT_REBASE_def STRUCT_ABS_SYNC_def)

lemma pack_used_open: "base_timestamp s \<noteq> None \<Longrightarrow> 0 < struct_size fs \<Longrightarrow> normally open_dgram (pack_used fs off s)"
  by (auto simp: pack_used_eq open_dgram_def split: option.splits)

lemma prepare_header_open: "normally open_dgram (prepare_header ts s)"
  using pack_used_open [of "s\<lparr>base_timestamp := Some ts\<rparr>"]
  by (simp add: prepare_header_def Let_def)

lemma rebase_open: "normally open_dgram (rebase ts s)"
  using pack_used_open [of "s\<lparr>base_timestamp := Some ts\<rparr>"]
  by (simp add: rebase_def Let_def)

lemma flush_inv_iff: "inv_iff s \<or> used s \<noteq> 0 \<Longrightarrow> normally inv_iff (flush ok s)"
  by (auto simp: flush_def inv_iff_def normally_def split: option.splits)

lemma flush_if_full_inv_iff: "open_dgram s \<Longrightarrow> normally inv_iff (flush_if_full ok s)"
  using flush_inv_iff [of s ok] by (simp add: flush_if_full_def open_dgram_def inv_iff_def)

lemmas open_intros =
  normally_andthenI [where P = open_dgram and Q = open_dgram]
  res_ifI [where G = "normally open_dgram"]
  res_optionI [where G = "normally open_dgram"]
  res_LetI [where G = "normally open_dgram"]
  normally_with_meanI [where P = open_dgram]
  pack_used_open prepare_header_open rebase_open

lemmas inv_iff_intros =
  normally_andthenI [where P = inv_iff and Q = open_dgram]
  res_ifI [where G = "normally inv_iff"]
  res_optionI [where G = "normally inv_iff"]
  res_LetI [where G = "normally inv_iff"]
  flush_if_full_inv_iff

lemma send_mlat_inv_iff: "inv_base s \<Longrightarrow> normally inv_iff (send_mlat m ok s)"
  unfolding send_mlat_def
  by (intro inv_iff_intros open_intros) (simp_all add: inv_base_def open_dgram_def)

lemma send_sync_inv_iff: "inv_base s \<Longrightarrow> normally inv_iff (send_sync em om ok s)"
  unfolding send_sync_def
  by (intro inv_iff_intros open_intros) (simp_all add: inv_base_def open_dgram_def)

lemma normally_andthen_lastI:
  "(\<And>s. normally P (f s)) \<Longrightarrow> normally P (andthen r f)"
  by (cases r) (auto simp: andthen_def split: option.splits)

lemma flush_if_full_below: "normally below_threshold (flush_if_full ok s)"
  by (auto simp: flush_if_full_def flush_def below_threshold_def split: option.splits)

lemmas below_intros =
  normally_andthen_lastI [where P = below_threshold]
  res_ifI [where G = "normally below_threshold"]
  res_optionI [where G = "normally below_threshold"]
  res_LetI [where G = "normally below_threshold"]
  flush_if_full_below

lemma send_mlat_below: "normally below_threshold (send_mlat m ok s)"
  unfolding send_mlat_def
  by (intro below_intros; simp)

lemma send_sync_below: "normally below_threshold (send_sync em om ok s)"
  unfolding send_sync_def
  by (intro below_intros; simp)


lemma inv_iff_inv_base: "inv_iff s \<Longrightarrow> inv_base s"
  by (auto simp: inv_iff_def inv_base_def)

lemma start_inv_iff: "inv_iff s \<Longrightarrow> normally inv_iff (start ok s)"
  by (simp add: start_def inv_iff_def)

lemma udp_step_inv_iff: "inv_iff s \<Longrightarrow> c \<noteq> Close \<Longrightarrow> normally inv_iff (udp_step c s)"
  by (cases c)
     (simp_all add: send_mlat_inv_iff send_sync_inv_iff flush_inv_iff inv_iff_inv_base start_inv_iff)

lemma udp_step_below: "below_threshold s \<Longrightarrow> normally below_threshold (udp_step c s)"
  by (cases c)
     (simp_all add: send_mlat_below send_sync_below,
      simp_all add: start_def close_def flush_def below_threshold_def normally_def split: option.splits)

subsection \<open>Room in the buffer\<close>

lemma fits_andthenI:
  assumes "fits a r" "a \<le> b" "\<And>s. room a s \<Longrightarrow> fits b (f s)"
  shows "fits b (andthen r f)"
  using assms by (cases r) (auto simp: andthen_def fits_def room_def split: option.splits)

lemma fits_mono: "fits a r \<Longrightarrow> a \<le> b \<Longrightarrow> fits b r"
  by (simp add: fits_def room_def)

lemma fits_ret [simp]: "fits n (None, s) = room n s"
  by (simp add: fits_def)

lemma pack_used_fits:
  "room a s \<Longrightarrow> a + struct_size fs \<le> n \<Longrightarrow> n \<le> 1500 \<Longrightarrow> fits n (pack_used fs (used s) s)"
  by (auto simp: pack_used_eq fits_def room_def length_write_at_pack length_write_at_partial
      split: option.splits)

lemma prepare_header_fits:
  "room a s \<Longrightarrow> used s = 0 \<Longrightarrow> 14 \<le> n \<Longrightarrow> n \<le> 1500 \<Longrightarrow> fits n (prepare_header ts s)"
  using pack_used_fits [of 0 "s\<lparr>base_timestamp := Some ts\<rparr>" "STRUCT_HEADER (key s) (seq s) ts" n]
  by (simp add: prepare_header_def Let_def room_def)

lemma rebase_fits:
  "room a s \<Longrightarrow> a + 9 \<le> n \<Longrightarrow> n \<le> 1500 \<Longrightarrow> fits n (rebase ts s)"
  using pack_used_fits [of a "s\<lparr>base_timestamp := Some ts\<rparr>" "STRUCT_REBASE TYPE_REBASE ts" n]
  by (simp add: rebase_def Let_def room_def)

lemma flush_if_full_fits: "room a s \<Longrightarrow> fits a (flush_if_full ok s)"
  by (auto simp: flush_if_full_def flush_def fits_def room_def split: option.splits)

lemma mean_timestamp_error: "mean_timestamp em om = Inl e \<Longrightarrow> e = OverflowError"
  by (auto simp: mean_timestamp_def int_half_def Let_def split: if_splits)

lemma with_mean_fits:
  assumes "room n s" "\<And>t. fits n (f t s)"
  shows "fits n (with_mean em om f s)"
proof (cases "mean_timestamp em om")
  case (Inl e)
  then have "e = OverflowError" by (rule mean_timestamp_error)
  with Inl show ?thesis using assms(1) by (simp add: with_mean_def fits_def)
next
  case (Inr t)
  then show ?thesis using assms(2) by (simp add: with_mean_def)
qed

lemma fits_err: "room n s \<Longrightarrow> e \<noteq> StructError BufferTooSmall \<Longrightarrow> fits n (Some e, s)"
  by (simp add: fits_def)

lemma room_mono: "room a s \<Longrightarrow> a \<le> b \<Longrightarrow> room b s"
  by (simp add: room_def)

lemma send_mlat_fits: "room 1400 s \<Longrightarrow> fits 1431 (send_mlat m ok s)"
  unfolding send_mlat_def
  apply (rule fits_andthenI [where a = 1400])
    apply (auto intro: prepare_header_fits)[1]
   apply simp
  apply (rule res_optionI [where G = "fits 1431"])
   apply (rule fits_err; simp add: room_def)
  apply (rule res_LetI [where G = "fits 1431"])
  apply (rule res_LetI [where G = "fits 1431"])
  apply (rule fits_andthenI [where a = 1409])
    apply (auto intro: rebase_fits room_mono)[1]
   apply simp
  apply (rule fits_andthenI [where a = 1431])
    apply (auto intro: pack_used_fits)[1]
   apply simp
  apply (erule flush_if_full_fits)
  done

lemma send_sync_fits: "room 1400 s \<Longrightarrow> fits 1457 (send_sync em om ok s)"
  unfolding send_sync_def
  apply (rule fits_andthenI [where a = 1400])
    apply (rule res_ifI [where G = "fits 1400"])
     apply (rule with_mean_fits, assumption)
     apply (rule prepare_header_fits [where a = 1400]; simp)
    apply simp
   apply simp
  apply (rule fits_andthenI [where a = 1457])
    apply (rule res_ifI [where G = "fits 1457"])
     apply (auto intro: pack_used_fits)[1]
    apply (rule res_optionI [where G = "fits 1457"])
     apply (rule fits_err; simp add: room_def)
    apply (rule res_LetI [where G = "fits 1457"])
    apply (rule res_LetI [where G = "fits 1457"])
    apply (rule res_ifI [where G = "fits 1457"])
     apply (rule fits_andthenI [where a = 1409])
       apply (rule with_mean_fits)
        apply (erule room_mono; simp)
       apply (rule rebase_fits [where a = 1400]; simp)
      apply simp
     apply (rule res_optionI [where G = "fits 1457"])
      apply (rule fits_err; simp add: room_def)
     apply (auto intro: pack_used_fits)[1]
    apply (auto intro: pack_used_fits)[1]
   apply simp
  apply (erule flush_if_full_fits)
  done

lemma udp_step_no_overrun:
  assumes "bounded s" "below_threshold s"
  shows "fst (udp_step c s) \<noteq> Some (StructError BufferTooSmall)"
proof -
  from assms have r: "room 1400 s" by (simp add: bounded_def below_threshold_def room_def)
  show ?thesis
  proof (cases c)
    case (SendMlat m ok)
    with send_mlat_fits [OF r] show ?thesis by (simp add: fits_def)
  next
    case (SendSync em om ok)
    with send_sync_fits [OF r] show ?thesis by (simp add: fits_def)
  qed (auto simp: start_def flush_def split: option.splits)
qed

lemma and_255: "(x::int) AND 255 = x mod 2 ^ 8"
proof -
  have "(255::int) = mask 8" by (simp add: mask_eq_exp_minus_1)
  then show ?thesis by (simp only: take_bit_eq_mod flip: take_bit_eq_mask)
qed

lemma byte_of_mod: "(word_of_int (x mod 256) :: byte) = word_of_int x"
  by (simp add: word_of_int_eq_iff take_bit_eq_mod)

lemma be_bytes_1: "be_bytes 1 v = [word_of_int v]"
  by (simp add: eval_nat_numeral)

lemma be_bytes_3:
  "be_bytes 3 a = [word_of_int (a div 65536), word_of_int (a div 256), word_of_int a]"
proof -
  have "a div 256 div 256 = a div 65536"
    using zdiv_zmult2_eq [of 256 a 256] by simp
  then show ?thesis by (simp add: eval_nat_numeral)
qed

lemma address_bytes:
  "0 \<le> a \<Longrightarrow> a < 2 ^ 24 \<Longrightarrow>
   pack [FB (drop_bit 16 a), FB (drop_bit 8 a AND 255), FB (a AND 255)] = Some (be_bytes 3 a)"
proof -
  assume a: "0 \<le> a" "a < 2 ^ 24"
  then have "0 \<le> a div 65536" "a div 65536 < 256" by simp_all
  then show ?thesis
    by (simp add: be_bytes_1 be_bytes_3 and_255 byte_of_mod drop_bit_eq_div)
qed

lemma pack_Cons_Some:
  "pack_field f = Some bs \<Longrightarrow> pack fs = Some rest \<Longrightarrow> pack (f # fs) = Some (bs @ rest)"
  by simp

lemma pack_append:
  "pack fs = Some a \<Longrightarrow> pack gs = Some b \<Longrightarrow> pack (fs @ gs) = Some (a @ b)"
  by (induction fs arbitrary: a) (auto split: option.splits)

lemma pack_header:
  "0 \<le> k \<Longrightarrow> k < 2 ^ 32 \<Longrightarrow> 0 \<le> sq \<Longrightarrow> sq < 2 ^ 16 \<Longrightarrow> 0 \<le> ts \<Longrightarrow> ts < 2 ^ 64 \<Longrightarrow>
   pack (STRUCT_HEADER k sq ts) = Some (wire_header k sq ts)"
  by (simp add: STRUCT_HEADER_def wire_header_def)

lemma pack_rebase:
  "0 \<le> ts \<Longrightarrow> ts < 2 ^ 64 \<Longrightarrow> pack (STRUCT_REBASE TYPE_REBASE ts) = Some (wire_rebase ts)"
  by (simp add: STRUCT_REBASE_def wire_rebase_def TYPE_REBASE_def be_bytes_1)

lemma pack_mlat_short:
  assumes "0 \<le> a" "a < 2 ^ 24" "- (2 ^ 31) \<le> d" "d < 2 ^ 31" "length p = 7"
  shows "pack (STRUCT_MLAT_SHORT TYPE_MLAT_SHORT (drop_bit 16 a) (drop_bit 8 a AND 255) (a AND 255) d p)
         = Some (wire_mlat_short a d p)"
proof -
  have "pack ([FB 2] @ [FB (drop_bit 16 a), FB (drop_bit 8 a AND 255), FB (a AND 255)] @ [Fi d, Fs 7 p])
        = Some ([2] @ be_bytes 3 a @ (be_bytes 4 d @ p))"
    using assms by (intro pack_append address_bytes) (simp_all add: be_bytes_1)
  then show ?thesis
    by (simp add: STRUCT_MLAT_SHORT_def TYPE_MLAT_SHORT_def wire_mlat_short_def)
qed

lemma pack_mlat_long:
  assumes "0 \<le> a" "a < 2 ^ 24" "- (2 ^ 31) \<le> d" "d < 2 ^ 31" "length p = 14"
  shows "pack (STRUCT_MLAT_LONG TYPE_MLAT_LONG (drop_bit 16 a) (drop_bit 8 a AND 255) (a AND 255) d p)
         = Some (wire_mlat_long a d p)"
proof -
  have "pack ([FB 3] @ [FB (drop_bit 16 a), FB (drop_bit 8 a AND 255), FB (a AND 255)] @ [Fi d, Fs 14 p])
        = Some ([3] @ be_bytes 3 a @ (be_bytes 4 d @ p))"
    using assms by (intro pack_append address_bytes) (simp_all add: be_bytes_1)
  then show ?thesis
    by (simp add: STRUCT_MLAT_LONG_def TYPE_MLAT_LONG_def wire_mlat_long_def)
qed

lemma pack_sync:
  assumes "0 \<le> a" "a < 2 ^ 24" "- (2 ^ 31) \<le> ed" "ed < 2 ^ 31" "- (2 ^ 31) \<le> od" "od < 2 ^ 31"
    "length ep = 14" "length op = 14"
  shows "pack (STRUCT_SYNC TYPE_SYNC (drop_bit 16 a) (drop_bit 8 a AND 255) (a AND 255) ed od ep op)
         = Some (wire_sync a ed od ep op)"
proof -
  have "pack ([FB 1] @ [FB (drop_bit 16 a), FB (drop_bit 8 a AND 255), FB (a AND 255)]
               @ [Fi ed, Fi od, Fs 14 ep, Fs 14 op])
        = Some ([1] @ be_bytes 3 a @ (be_bytes 4 ed @ be_bytes 4 od @ ep @ op))"
    using assms by (intro pack_append address_bytes) (simp_all add: be_bytes_1)
  then show ?thesis
    by (simp add: STRUCT_SYNC_def TYPE_SYNC_def wire_sync_def)
qed

lemma pack_abs_sync:
  assumes "0 \<le> a" "a < 2 ^ 24" "0 \<le> et" "et < 2 ^ 64" "0 \<le> ot" "ot < 2 ^ 64"
    "length ep = 14" "length op = 14"
  shows "pack (STRUCT_ABS_SYNC TYPE_ABS_SYNC (drop_bit 16 a) (drop_bit 8 a AND 255) (a AND 255) et ot ep op)
         = Some (wire_abs_sync a et ot ep op)"
proof -
  have "pack ([FB 6] @ [FB (drop_bit 16 a), FB (drop_bit 8 a AND 255), FB (a AND 255)]
               @ [FQ et, FQ ot, Fs 14 ep, Fs 14 op])
        = Some ([6] @ be_bytes 3 a @ (be_bytes 8 et @ be_bytes 8 ot @ ep @ op))"
    using assms by (intro pack_append address_bytes) (simp_all add: be_bytes_1)
  then show ?thesis
    by (simp add: STRUCT_ABS_SYNC_def TYPE_ABS_SYNC_def wire_abs_sync_def)
qed

lemma pack_used_ok:
  "pack fs = Some bs \<Longrightarrow> off + struct_size fs \<le> length (buf s) \<Longrightarrow>
   pack_used fs off s = (None, s\<lparr>buf := write_at (buf s) off bs, used := used s + struct_size fs\<rparr>)"
  by (simp add: pack_used_eq)

lemma rebase_ok:
  "0 \<le> ts \<Longrightarrow> ts < 2 ^ 64 \<Longrightarrow> used s + 9 \<le> length (buf s) \<Longrightarrow>
   rebase ts s = (None, s\<lparr>base_timestamp := Some ts,
                           buf := write_at (buf s) (used s) (wire_rebase ts),
                           used := used s + 9\<rparr>)"
  by (simp add: rebase_def Let_def pack_used_ok [OF pack_rebase])

lemma prepare_header_ok:
  "0 \<le> key s \<Longrightarrow> key s < 2 ^ 32 \<Longrightarrow> 0 \<le> seq s \<Longrightarrow> seq s < 2 ^ 16 \<Longrightarrow>
   0 \<le> ts \<Longrightarrow> ts < 2 ^ 64 \<Longrightarrow> 14 \<le> length (buf s) \<Longrightarrow>
   prepare_header ts s = (None, s\<lparr>base_timestamp := Some ts,
                           buf := write_at (buf s) 0 (wire_header (key s) (seq s) ts),
                           used := used s + 14\<rparr>)"
  by (simp add: prepare_header_def Let_def pack_used_ok [OF pack_header])

subsection \<open>Runs\<close>

lemma run_ops_bounded: "bounded s0 \<Longrightarrow> bounded (snd (run_ops cs s0))"
proof (induction cs arbitrary: s0)
  case Nil
  then show ?case by simp
next
  case (Cons c cs)
  from udp_step_bounded [OF Cons.prems, of c] have "bounded (snd (udp_step c s0))"
    by (simp add: always_def)
  from Cons.IH [OF this] show ?case
    by (auto split: prod.splits)
qed

lemma run_ops_below:
  "below_threshold s0 \<Longrightarrow> \<forall>e \<in> set (fst (run_ops cs s0)). e = None \<Longrightarrow>
   below_threshold (snd (run_ops cs s0))"
proof (induction cs arbitrary: s0)
  case Nil
  then show ?case by simp
next
  case (Cons c cs)
  obtain e s1 where step: "udp_step c s0 = (e, s1)" by (cases "udp_step c s0")
  obtain es s2 where rest: "run_ops cs s1 = (es, s2)" by (cases "run_ops cs s1")
  from Cons.prems(2) step rest have e: "e = None" and es: "\<forall>e \<in> set es. e = None" by simp_all
  from udp_step_below [OF Cons.prems(1), of c] step e have "below_threshold s1"
    by (simp add: normally_def)
  from Cons.IH [OF this] rest es have "below_threshold s2" by simp
  with step rest show ?case by simp
qed

lemma init_bounded: "bounded (init h p k)"
  by (simp add: init_def bounded_def)

lemma init_below: "below_threshold (init h p k)"
  by (simp add: init_def below_threshold_def)

lemma be_bytes_numeral:
  "be_bytes (numeral n) v = be_bytes (pred_numeral n) (v div 256) @ [word_of_int v]"
  by (simp add: numeral_eq_Suc)

lemma be_bytes_Suc0: "be_bytes (Suc 0) v = [word_of_int v]"
  by simp

lemma excess_bits_small: "n < 2 ^ 53 \<Longrightarrow> excess_bits n = 0"
  by (simp add: excess_bits.simps)

lemma excess_bits_step: "\<not> n < 2 ^ 53 \<Longrightarrow> excess_bits n = Suc (excess_bits (n div 2))"
  by (subst excess_bits.simps) simp

lemma int_half_max: "int_half 36893488147419103230 = Inr 18446744073709551616"
  by (simp add: int_half_def round_half_even_def excess_bits_small excess_bits_step Let_def)

lemmas udp_eval =
  init_def start_def close_def send_mlat_def send_sync_def prepare_header_def rebase_def
  pack_used_def pack_into_def flush_def flush_if_full_def with_mean_def mean_timestamp_def
  STRUCT_HEADER_def STRUCT_SYNC_def STRUCT_MLAT_SHORT_def STRUCT_MLAT_LONG_def
  STRUCT_REBASE_def STRUCT_ABS_SYNC_def
  TYPE_SYNC_def TYPE_MLAT_SHORT_def TYPE_MLAT_LONG_def TYPE_REBASE_def TYPE_ABS_SYNC_def
  write_at_def Let_def be_bytes_numeral be_bytes_Suc0

subsection \<open>The invariant between \<open>used\<close> and \<open>base_timestamp\<close>\<close>

text \<open>
  C2, as stated, fails: \<open>close\<close> after a \<open>send_mlat\<close> sets \<open>used\<close> to 0 and leaves
  \<open>base_timestamp\<close> set; and a \<open>send_sync\<close> on the fresh object whose header cannot be
  packed (both timestamps \<open>2 ^ 64 - 1\<close>: the mean computed in floating point is
  \<open>2 ^ 64\<close>) raises after \<open>base_timestamp\<close> has been assigned, with \<open>used\<close> still 0.
\<close>

theorem inv_iff_counterexample:
  "inv_iff (snd (run_ops [Start True, SendMlat m0 True] (init [] 0 7))) \<and>
   \<not> inv_iff (snd (udp_step Close (snd (run_ops [Start True, SendMlat m0 True] (init [] 0 7))))) \<and>
   inv_iff (init [] 0 7) \<and>
   \<not> inv_iff (snd (udp_step
       (SendSync (m0\<lparr>timestamp := 2 ^ 64 - 1\<rparr>) (m0\<lparr>timestamp := 2 ^ 64 - 1\<rparr>) True)
       (init [] 0 7)))"
  by (simp add: udp_eval m0_def inv_iff_def int_half_max)

text \<open>
  C2, amended. \<open>start\<close>, \<open>send_mlat\<close>, \<open>send_sync\<close> and \<open>flush\<close>, when they return,
  preserve \<open>used = 0 \<longleftrightarrow> base_timestamp = None\<close>. \<open>close\<close> sets \<open>used\<close> to 0 and
  leaves \<open>base_timestamp\<close> as it was. The direction the source relies on,
  \<open>used \<noteq> 0 \<longrightarrow> base_timestamp \<noteq> None\<close>, is preserved by every operation, also by one
  that raises.
\<close>

theorem udp_invariant:
  "(inv_iff s \<and> c \<noteq> Close \<and> fst (udp_step c s) = None \<longrightarrow> inv_iff (snd (udp_step c s))) \<and>
   (inv_base s \<longrightarrow> inv_base (snd (udp_step c s))) \<and>
   used (close s) = 0 \<and> base_timestamp (close s) = base_timestamp s"
  using udp_step_inv_iff [of s c] udp_step_inv_base [of s c]
  by (auto simp: normally_def always_def close_def)

theorem udp_invariant_witness:
  "inv_iff (init [] 0 7) \<and> inv_base (init [] 0 7) \<and>
   fst (udp_step (SendMlat m0 True) (init [] 0 7)) = None \<and>
   inv_iff (snd (udp_step (SendMlat m0 True) (init [] 0 7))) \<and>
   inv_base (snd (udp_step (SendMlat m0 True) (init [] 0 7)))"
proof -
  have i: "inv_iff (init [] 0 7)" "inv_base (init [] 0 7)"
    by (simp_all add: init_def inv_iff_def inv_base_def)
  have r: "fst (udp_step (SendMlat m0 True) (init [] 0 7)) = None"
    by (simp add: udp_eval m0_def)
  from i r udp_invariant [of "init [] 0 7" "SendMlat m0 True"] show ?thesis by simp
qed

subsection \<open>\<open>send_mlat\<close> and the REBASE submessage\<close>


lemma buf_flush_if_full [simp]: "buf (snd (flush_if_full ok s)) = buf s"
  by (simp add: flush_if_full_def flush_def split: option.splits)

lemma length_wire [simp]:
  "length (wire_rebase ts) = 9"
  "length (wire_header k sq ts) = 14"
  "length (wire_mlat_short a d p) = 8 + length p"
  "length (wire_mlat_long a d p) = 8 + length p"
  "length (wire_sync a ed od ep op) = 12 + length ep + length op"
  "length (wire_abs_sync a et ot ep op) = 20 + length ep + length op"
  by (simp_all add: wire_rebase_def wire_header_def wire_mlat_short_def wire_mlat_long_def
      wire_sync_def wire_abs_sync_def)

lemma mlat_step_ok:
  assumes "valid_message m" "- (2 ^ 31) \<le> d" "d < 2 ^ 31"
    "length (payload m) = 7 \<or> length (payload m) = 14"
    "used s + 22 \<le> length (buf s)"
  shows "mlat_step m d s =
           (None, s\<lparr>buf := write_at (buf s) (used s) (wire_mlat m d),
                     used := used s + length (wire_mlat m d)\<rparr>)"
proof (cases "length (payload m) = 7")
  case True
  with assms show ?thesis
    by (simp add: mlat_step_def wire_mlat_def valid_message_def pack_used_ok [OF pack_mlat_short])
next
  case False
  with assms have "length (payload m) = 14" by simp
  with assms show ?thesis
    by (simp add: mlat_step_def wire_mlat_def valid_message_def pack_used_ok [OF pack_mlat_long])
qed

lemma send_mlat_unfold:
  "used s \<noteq> 0 \<Longrightarrow> base_timestamp s = Some b \<Longrightarrow>
   send_mlat m ok s =
     (if \<bar>timestamp m - b\<bar> > 0x7FFFFFF0
      then andthen (rebase (timestamp m) s) (\<lambda>s2. andthen (mlat_step m 0 s2) (flush_if_full ok))
      else andthen (mlat_step m (timestamp m - b) s) (flush_if_full ok))"
  by (simp add: send_mlat_def mlat_step_def Let_def)


lemma send_mlat_near:
  assumes "valid_message m" "wf_udp s" "used s \<noteq> 0" "base_timestamp s = Some b"
    "\<not> \<bar>timestamp m - b\<bar> > 0x7FFFFFF0"
    "length (payload m) = 7 \<or> length (payload m) = 14"
  shows "send_mlat m ok s =
         flush_if_full ok
           (s\<lparr>buf := write_at (buf s) (used s) (wire_mlat m (timestamp m - b)),
              used := used s + length (wire_mlat m (timestamp m - b))\<rparr>)"
proof -
  from assms(2) have "used s + 22 \<le> length (buf s)"
    by (simp add: wf_udp_def)
  moreover from assms(5) have "- (2 ^ 31) \<le> timestamp m - b" "timestamp m - b < 2 ^ 31"
    by simp_all
  ultimately have "mlat_step m (timestamp m - b) s =
      (None, s\<lparr>buf := write_at (buf s) (used s) (wire_mlat m (timestamp m - b)),
                used := used s + length (wire_mlat m (timestamp m - b))\<rparr>)"
    using mlat_step_ok [OF assms(1) _ _ assms(6), of "timestamp m - b" s] by simp
  then show ?thesis
    by (simp add: send_mlat_unfold [OF assms(3,4)] assms(5))
qed

lemma length_wire_mlat:
  "length (payload m) = 7 \<or> length (payload m) = 14 \<Longrightarrow>
   length (wire_mlat m d) = (if length (payload m) = 7 then 15 else 22)"
  by (auto simp: wire_mlat_def)

lemma slice_delta_wire_mlat [simp]: "slice 4 4 (wire_mlat m d) = be_bytes 4 d"
  by (simp add: wire_mlat_def wire_mlat_short_def wire_mlat_long_def slice_def)

lemma slice_ts_wire_rebase [simp]: "slice (Suc 0) 8 (wire_rebase ts) = be_bytes 8 ts"
  by (simp add: wire_rebase_def slice_def)






subsection \<open>\<open>send_sync\<close> late in the range of the timer\<close>

lemma int_half_em1_om1: "int_half 18446744078004519096 = Inr 9223372039002259456"
  by (simp add: int_half_def round_half_even_def excess_bits_small excess_bits_step Let_def)

text \<open>
  C5 at that pair, on the started, empty batcher. The header takes
  \<open>int((em.timestamp + om.timestamp) / 2) = 2 ^ 63 + 2 ^ 31\<close> as base, 92 ticks below
  the mean, because the sum does not fit the 53 bits of a double. The delta of the even
  message is \<open>2 ^ 31 + 84\<close>; the REBASE to the same value is written and changes
  nothing, and packing the SYNC submessage raises \<open>struct.error\<close>: the int32 field
  cannot hold the delta. The datagram is left with header and REBASE (23 bytes), without
  the SYNC submessage.
\<close>

theorem send_sync_large_timestamps:
  "valid_message em1 \<and> valid_message om1 \<and>
   \<bar>timestamp em1 - timestamp om1\<bar> \<le> 0xFFFFFFF0 \<and>
   fst (send_sync em1 om1 True (snd (start True (init [] 0 7)))) = Some (StructError OutOfRange) \<and>
   used (snd (send_sync em1 om1 True (snd (start True (init [] 0 7))))) = 23 \<and>
   base_timestamp (snd (send_sync em1 om1 True (snd (start True (init [] 0 7)))))
     = Some (2 ^ 63 + 2 ^ 31) \<and>
   slice 14 9 (buf (snd (send_sync em1 om1 True (snd (start True (init [] 0 7))))))
     = wire_rebase (2 ^ 63 + 2 ^ 31) \<and>
   timestamp em1 - (2 ^ 63 + 2 ^ 31) = 2 ^ 31 + 84 \<and>
   (timestamp em1 + timestamp om1) div 2 = 2 ^ 63 + 2 ^ 31 + 92"
  by (simp add: udp_eval em1_def om1_def valid_message_def int_half_em1_om1 slice_def
      wire_rebase_def)

text \<open>
  What a failed \<open>pack_into\<close> leaves behind: the fields before the failing one, the low 64
  bits of a \<open>Q\<close> value that is too large, zeros otherwise, and the buffer untouched when
  the target does not fit. After the failed \<open>send_sync\<close> above the 40 bytes from
  \<open>used\<close> on hold the tag and the address of the SYNC submessage and zeros.
\<close>

lemma pack_into_failed:
  "pack_into [FI 7, FH 0, FQ (2 ^ 64 + 5)] (replicate 24 255) 2
     = (Some (StructError OutOfRange),
        replicate 2 255 @ [0, 0, 0, 7, 0, 0, 0, 0, 0, 0, 0, 0, 0, 5] @ replicate 8 255)"
  "pack_into [FI 7, FH 70000, FQ 5] (replicate 24 255) 2
     = (Some (StructError OutOfRange),
        replicate 2 255 @ [0, 0, 0, 7] @ replicate 10 0 @ replicate 8 255)"
  "pack_into [FB 5, FQ (- 3)] (replicate 12 255) 2
     = (Some (StructError OutOfRange), replicate 2 255 @ [5] @ replicate 8 0 @ replicate 1 255)"
  "pack_into [FB 5, FQ 2] (replicate 10 255) 5
     = (Some (StructError BufferTooSmall), replicate 10 255)"
  by (simp_all add: pack_into_def write_at_def be_bytes_numeral be_bytes_Suc0
      replicate_add [symmetric])

lemma failed_sync_target:
  "slice 23 40 (buf (snd (send_sync em1 om1 True (snd (start True (init [] 0 7))))))
     = [1, 0xAB, 0xCD, 0xEF] @ replicate 36 0"
  by (simp add: udp_eval em1_def om1_def int_half_em1_om1 slice_def replicate_add [symmetric])

subsection \<open>Occupancy of the buffer over runs\<close>

lemma fst_run_ops_Cons:
  "fst (run_ops (c # cs) s) = fst (udp_step c s) # fst (run_ops cs (snd (udp_step c s)))"
  by (simp split: prod.splits)

lemma snd_run_ops_Cons:
  "snd (run_ops (c # cs) s) = snd (run_ops cs (snd (udp_step c s)))"
  by (simp split: prod.splits)

lemma fst_run_ops_append:
  "fst (run_ops (xs @ ys) s) = fst (run_ops xs s) @ fst (run_ops ys (snd (run_ops xs s)))"
  by (induction xs arbitrary: s)
     (simp_all add: fst_run_ops_Cons snd_run_ops_Cons del: run_ops.simps(2))

lemma snd_run_ops_append:
  "snd (run_ops (xs @ ys) s) = snd (run_ops ys (snd (run_ops xs s)))"
  by (induction xs arbitrary: s) (simp_all add: snd_run_ops_Cons del: run_ops.simps(2))

lemma ml0_facts:
  "valid_message ml0" "length (payload ml0) = 14" "timestamp ml0 = 1000"
  by (simp_all add: ml0_def valid_message_def)

lemma em1_om1_facts:
  "valid_message em1" "valid_message om1"
  "timestamp em1 = 9223372041149743188" "timestamp om1 = 9223372036854775908"
  "length (payload em1) = 14" "length (payload om1) = 14"
  by (simp_all add: em1_def om1_def valid_message_def)

lemma mean_em1_om1: "mean_timestamp em1 om1 = Inr 9223372039002259456"
  by (simp add: mean_timestamp_def em1_om1_facts int_half_em1_om1)

lemma send_mlat_filled:
  assumes "filled u s" "base_timestamp s = Some 1000" "u \<noteq> 0" "u + 22 \<le> 1400"
  shows "fst (send_mlat ml0 True s) = None \<and>
         filled (u + 22) (snd (send_mlat ml0 True s)) \<and>
         base_timestamp (snd (send_mlat ml0 True s)) = Some 1000"
proof -
  from assms have wf: "wf_udp s" and u: "used s \<noteq> 0"
    by (simp_all add: filled_def wf_udp_def inv_base_def)
  have l: "length (payload ml0) = 7 \<or> length (payload ml0) = 14" by (simp add: ml0_facts)
  have n: "\<not> \<bar>timestamp ml0 - 1000\<bar> > 0x7FFFFFF0" by (simp add: ml0_facts)
  note eq = send_mlat_near [OF ml0_facts(1) wf u assms(2) n l, of True]
  have w: "length (wire_mlat ml0 (timestamp ml0 - 1000)) = 22"
    using length_wire_mlat [OF l] by (simp add: ml0_facts)
  from assms show ?thesis
    by (simp add: eq w flush_if_full_def filled_def length_write_at)
qed

lemma run_mlat_filled:
  "filled u s \<Longrightarrow> base_timestamp s = Some 1000 \<Longrightarrow> u \<noteq> 0 \<Longrightarrow> u + 22 * n \<le> 1400 \<Longrightarrow>
   fst (run_ops (replicate n (SendMlat ml0 True)) s) = replicate n None \<and>
   filled (u + 22 * n) (snd (run_ops (replicate n (SendMlat ml0 True)) s)) \<and>
   base_timestamp (snd (run_ops (replicate n (SendMlat ml0 True)) s)) = Some 1000"
proof (induction n arbitrary: u s)
  case 0
  then show ?case by simp
next
  case (Suc n)
  from Suc.prems have "u + 22 \<le> 1400" by simp
  from send_mlat_filled [OF Suc.prems(1,2,3) this]
  have e: "fst (send_mlat ml0 True s) = None"
    and f: "filled (u + 22) (snd (send_mlat ml0 True s))"
    and b: "base_timestamp (snd (send_mlat ml0 True s)) = Some 1000"
    by simp_all
  from Suc.prems have "u + 22 \<noteq> 0" "u + 22 + 22 * n \<le> 1400" by simp_all
  from Suc.IH [OF f b this] e show ?case
    by (simp add: fst_run_ops_Cons snd_run_ops_Cons add.assoc del: run_ops.simps(2))
qed

lemma first_mlat:
  "fst (run_ops [Start True, SendMlat ml0 True] (init [] 0 7)) = [None, None] \<and>
   filled 36 (snd (run_ops [Start True, SendMlat ml0 True] (init [] 0 7))) \<and>
   base_timestamp (snd (run_ops [Start True, SendMlat ml0 True] (init [] 0 7))) = Some 1000"
  by (simp add: udp_eval ml0_def filled_def)

lemma full_ops_eq:
  "full_ops = [Start True, SendMlat ml0 True] @ replicate 62 (SendMlat ml0 True)"
proof -
  have "(63::nat) = Suc 62" by simp
  then show ?thesis by (simp only: full_ops_def replicate_Suc append_Cons append_Nil)
qed

lemma full_ops_run:
  "fst (run_ops full_ops (init [] 0 7)) = replicate 64 None"
  "filled 1400 (snd (run_ops full_ops (init [] 0 7)))"
  "base_timestamp (snd (run_ops full_ops (init [] 0 7))) = Some 1000"
proof -
  let ?s = "snd (run_ops [Start True, SendMlat ml0 True] (init [] 0 7))"
  from first_mlat have f: "filled 36 ?s" and b: "base_timestamp ?s = Some 1000"
    and e: "fst (run_ops [Start True, SendMlat ml0 True] (init [] 0 7)) = [None, None]"
    by blast+
  have "36 + 22 * 62 \<le> (1400::nat)" by simp
  from run_mlat_filled [OF f b _ this]
  have r: "fst (run_ops (replicate 62 (SendMlat ml0 True)) ?s) = replicate 62 None"
    "filled (36 + 22 * 62) (snd (run_ops (replicate 62 (SendMlat ml0 True)) ?s))"
    "base_timestamp (snd (run_ops (replicate 62 (SendMlat ml0 True)) ?s)) = Some 1000"
    by simp_all
  have "(64::nat) = Suc (Suc 62)" by simp
  then have "replicate 64 (None::error option) = [None, None] @ replicate 62 None"
    by (simp only: replicate_Suc append_Cons append_Nil)
  with e r(1) show "fst (run_ops full_ops (init [] 0 7)) = replicate 64 None"
    by (simp only: full_ops_eq fst_run_ops_append)
  from r(2) show "filled 1400 (snd (run_ops full_ops (init [] 0 7)))"
    by (simp only: full_ops_eq snd_run_ops_append) simp
  from r(3) show "base_timestamp (snd (run_ops full_ops (init [] 0 7))) = Some 1000"
    by (simp only: full_ops_eq snd_run_ops_append)
qed

lemma pack_sync_out_of_range:
  "\<not> ed < 2 ^ 31 \<Longrightarrow> 0 \<le> a \<Longrightarrow> a < 2 ^ 24 \<Longrightarrow>
   pack (STRUCT_SYNC TYPE_SYNC (drop_bit 16 a) (drop_bit 8 a AND 255) (a AND 255) ed od ep op) = None"
proof -
  assume ed: "\<not> ed < 2 ^ 31" and a: "0 \<le> a" "a < 2 ^ 24"
  have "pack ([FB 1] @ [FB (drop_bit 16 a), FB (drop_bit 8 a AND 255), FB (a AND 255)]) = Some ([1] @ be_bytes 3 a)"
    using a by (intro pack_append address_bytes) (simp_all add: be_bytes_1)
  then show ?thesis
    using ed by (simp add: STRUCT_SYNC_def TYPE_SYNC_def split: option.splits)
qed

lemma send_sync_stuck:
  assumes "length (buf s) = 1500" "used s \<noteq> 0" "used s + 9 \<le> 1500"
    "base_timestamp s = Some b" "\<bar>timestamp em1 - b\<bar> > 0x7FFFFFF0"
  shows
    "fst (send_sync em1 om1 ok s)
       = Some (StructError (if used s + 49 \<le> 1500 then OutOfRange else BufferTooSmall))"
    "used (snd (send_sync em1 om1 ok s)) = used s + 9"
    "length (buf (snd (send_sync em1 om1 ok s))) = 1500"
    "base_timestamp (snd (send_sync em1 om1 ok s)) = Some 9223372039002259456"
    "wire (snd (send_sync em1 om1 ok s)) = wire s"
    "count (snd (send_sync em1 om1 ok s)) = count s"
proof -
  have a: "0 \<le> address em1" "address em1 < 2 ^ 24"
    using em1_om1_facts(1) by (simp_all add: valid_message_def)
  have r: "rebase 9223372039002259456 s =
      (None, s\<lparr>base_timestamp := Some 9223372039002259456,
                buf := write_at (buf s) (used s) (wire_rebase 9223372039002259456),
                used := used s + 9\<rparr>)"
    using assms(1,3) by (intro rebase_ok) simp_all
  have p: "pack (STRUCT_SYNC TYPE_SYNC (drop_bit 16 (address em1))
             (drop_bit 8 (address em1) AND 255) (address em1 AND 255)
             (timestamp em1 - 9223372039002259456) od (payload em1) (payload om1)) = None" for od
    using a by (intro pack_sync_out_of_range) (simp_all add: em1_om1_facts)
  have sz: "struct_size (STRUCT_SYNC t a2 a1 a0 ed od ep op) = 40" for t a2 a1 a0 ed od ep op
    by (simp add: STRUCT_SYNC_def)
  have d: "\<not> \<bar>timestamp em1 - timestamp om1\<bar> > 0xFFFFFFF0" by (simp add: em1_om1_facts)
  note unfold = send_sync_def d with_mean_def mean_em1_om1 r pack_used_eq p Let_def
  show "fst (send_sync em1 om1 ok s)
       = Some (StructError (if used s + 49 \<le> 1500 then OutOfRange else BufferTooSmall))"
    using assms by (simp add: unfold sz length_write_at)
  show "used (snd (send_sync em1 om1 ok s)) = used s + 9"
    using assms by (simp add: unfold sz length_write_at)
  show "length (buf (snd (send_sync em1 om1 ok s))) = 1500"
    using assms by (simp add: unfold sz length_write_at)
  show "base_timestamp (snd (send_sync em1 om1 ok s)) = Some 9223372039002259456"
    using assms by (simp add: unfold sz length_write_at)
  show "wire (snd (send_sync em1 om1 ok s)) = wire s"
    using assms by (simp add: unfold sz length_write_at)
  show "count (snd (send_sync em1 om1 ok s)) = count s"
    using assms by (simp add: unfold sz length_write_at)
qed

lemma run_sync_stuck:
  "length (buf s) = 1500 \<Longrightarrow> used s \<noteq> 0 \<Longrightarrow> used s + 9 * n + 40 \<le> 1500 \<Longrightarrow>
   base_timestamp s = Some b \<Longrightarrow> \<bar>timestamp em1 - b\<bar> > 0x7FFFFFF0 \<Longrightarrow>
   fst (run_ops (replicate n (SendSync em1 om1 ok)) s) = replicate n (Some (StructError OutOfRange)) \<and>
   length (buf (snd (run_ops (replicate n (SendSync em1 om1 ok)) s))) = 1500 \<and>
   used (snd (run_ops (replicate n (SendSync em1 om1 ok)) s)) = used s + 9 * n \<and>
   (\<exists>b'. base_timestamp (snd (run_ops (replicate n (SendSync em1 om1 ok)) s)) = Some b' \<and>
         \<bar>timestamp em1 - b'\<bar> > 0x7FFFFFF0) \<and>
   wire (snd (run_ops (replicate n (SendSync em1 om1 ok)) s)) = wire s \<and>
   count (snd (run_ops (replicate n (SendSync em1 om1 ok)) s)) = count s"
proof (induction n arbitrary: s b)
  case 0
  then show ?case by simp
next
  case (Suc n)
  let ?s1 = "snd (send_sync em1 om1 ok s)"
  from Suc.prems have u: "used s + 9 \<le> 1500" "used s + 49 \<le> 1500" by simp_all
  note st = send_sync_stuck [OF Suc.prems(1,2) u(1) Suc.prems(4,5), of ok]
  from st(1) u(2) have e: "fst (send_sync em1 om1 ok s) = Some (StructError OutOfRange)" by simp
  have f: "\<bar>timestamp em1 - 9223372039002259456\<bar> > 0x7FFFFFF0" by (simp add: em1_om1_facts)
  from Suc.prems st(2) have "used ?s1 \<noteq> 0" "used ?s1 + 9 * n + 40 \<le> 1500" by simp_all
  from Suc.IH [OF st(3) this st(4) f] show ?case
    by (simp add: fst_run_ops_Cons snd_run_ops_Cons e st(2,5,6) del: run_ops.simps(2))
qed

text \<open>
  C7, as stated, fails where a call raises. On the started batcher the header and 63 long
  messages fill the buffer to exactly 1400 bytes, and every call returns. The sync pair
  \<open>em1\<close>, \<open>om1\<close> then makes \<open>send_sync\<close> write a REBASE and raise
  \<open>struct.error\<close> when it packs the SYNC submessage: \<open>used\<close> is 1409, above 1400,
  and nothing is flushed, because the test \<open>used > 1400\<close> at the end of \<open>send_sync\<close>
  is not reached. Each further such call adds 9 bytes; the seventh finds \<open>used = 1463\<close>
  after its REBASE, and its SYNC submessage of 40 bytes does not fit the 1500 bytes:
  \<open>pack_into\<close> raises for lack of room. All three messages are valid.
\<close>

theorem headroom_counterexample:
  "valid_message ml0 \<and> valid_message em1 \<and> valid_message om1 \<and>
   fst (run_ops full_ops (init [] 0 7)) = replicate 64 None \<and>
   used (snd (run_ops full_ops (init [] 0 7))) = 1400 \<and>
   fst (run_ops (full_ops @ [SendSync em1 om1 True]) (init [] 0 7))
     = replicate 64 None @ [Some (StructError OutOfRange)] \<and>
   used (snd (run_ops (full_ops @ [SendSync em1 om1 True]) (init [] 0 7))) = 1409 \<and>
   wire (snd (run_ops (full_ops @ [SendSync em1 om1 True]) (init [] 0 7))) = [] \<and>
   fst (run_ops (full_ops @ replicate 7 (SendSync em1 om1 True)) (init [] 0 7))
     = replicate 64 None @ replicate 6 (Some (StructError OutOfRange))
       @ [Some (StructError BufferTooSmall)] \<and>
   used (snd (run_ops (full_ops @ replicate 7 (SendSync em1 om1 True)) (init [] 0 7))) = 1463 \<and>
   wire (snd (run_ops (full_ops @ replicate 7 (SendSync em1 om1 True)) (init [] 0 7))) = []"
proof -
  let ?s = "snd (run_ops full_ops (init [] 0 7))"
  let ?y = "SendSync em1 om1 True"
  from full_ops_run(2) have l: "length (buf ?s) = 1500" and u: "used ?s = 1400"
    and w: "wire ?s = []"
    by (simp_all add: filled_def)
  have f: "\<bar>timestamp em1 - 1000\<bar> > 0x7FFFFFF0" by (simp add: em1_om1_facts)
  have one: "fst (send_sync em1 om1 True ?s) = Some (StructError OutOfRange)"
    "used (snd (send_sync em1 om1 True ?s)) = 1409"
    "wire (snd (send_sync em1 om1 True ?s)) = []"
    using send_sync_stuck(1,2,5) [OF l _ _ full_ops_run(3) f, of True] u w by simp_all
  have "used ?s \<noteq> 0" "used ?s + 9 * 6 + 40 \<le> 1500" using u by simp_all
  from run_sync_stuck [OF l this full_ops_run(3) f, of True]
  obtain b' where six: "fst (run_ops (replicate 6 ?y) ?s) = replicate 6 (Some (StructError OutOfRange))"
    and l6: "length (buf (snd (run_ops (replicate 6 ?y) ?s))) = 1500"
    and u6: "used (snd (run_ops (replicate 6 ?y) ?s)) = 1454"
    and b6: "base_timestamp (snd (run_ops (replicate 6 ?y) ?s)) = Some b'"
    and f6: "\<bar>timestamp em1 - b'\<bar> > 0x7FFFFFF0"
    and w6: "wire (snd (run_ops (replicate 6 ?y) ?s)) = []"
    using u w by auto
  let ?t = "snd (run_ops (replicate 6 ?y) ?s)"
  have seven: "fst (send_sync em1 om1 True ?t) = Some (StructError BufferTooSmall)"
    "used (snd (send_sync em1 om1 True ?t)) = 1463"
    "wire (snd (send_sync em1 om1 True ?t)) = []"
    using send_sync_stuck(1,2,5) [OF l6 _ _ b6 f6, of True] u6 w6 by simp_all
  have "(7::nat) = 6 + 1" by simp
  then have r7: "replicate 7 ?y = replicate 6 ?y @ [?y]"
    by (simp only: replicate_add) simp
  have c1: "fst (run_ops (full_ops @ [?y]) (init [] 0 7))
            = replicate 64 None @ [Some (StructError OutOfRange)]"
    by (simp add: fst_run_ops_append full_ops_run(1) one fst_run_ops_Cons del: run_ops.simps(2))
  have c2: "used (snd (run_ops (full_ops @ [?y]) (init [] 0 7))) = 1409"
    by (simp add: snd_run_ops_append one snd_run_ops_Cons u del: run_ops.simps(2))
  have c3: "wire (snd (run_ops (full_ops @ [?y]) (init [] 0 7))) = []"
    by (simp add: snd_run_ops_append one snd_run_ops_Cons w del: run_ops.simps(2))
  have c4: "fst (run_ops (full_ops @ replicate 7 ?y) (init [] 0 7))
            = replicate 64 None @ replicate 6 (Some (StructError OutOfRange))
              @ [Some (StructError BufferTooSmall)]"
    by (simp only: r7 fst_run_ops_append snd_run_ops_append full_ops_run(1) six)
       (simp add: fst_run_ops_Cons seven del: run_ops.simps(2))
  have c5: "used (snd (run_ops (full_ops @ replicate 7 ?y) (init [] 0 7))) = 1463"
    by (simp only: r7 snd_run_ops_append)
       (simp add: snd_run_ops_Cons seven u6 del: run_ops.simps(2))
  have c6: "wire (snd (run_ops (full_ops @ replicate 7 ?y) (init [] 0 7))) = []"
    by (simp only: r7 snd_run_ops_append)
       (simp add: snd_run_ops_Cons seven w6 del: run_ops.simps(2))
  from ml0_facts(1) em1_om1_facts(1,2) full_ops_run(1) u c1 c2 c3 c4 c5 c6
  show ?thesis by (simp only: simp_thms)
qed

lemma send_sync_near:
  assumes "valid_message em" "length (buf s) = 1500" "used s \<le> 1400" "used s \<noteq> 0"
    "base_timestamp s = Some b"
    "\<not> \<bar>timestamp em - timestamp om\<bar> > 0xFFFFFFF0"
    "\<not> \<bar>timestamp em - b\<bar> > 0x7FFFFFF0" "\<not> \<bar>timestamp om - b\<bar> > 0x7FFFFFF0"
    "length (payload em) = 14" "length (payload om) = 14"
  shows "send_sync em om ok s =
         flush_if_full ok
           (s\<lparr>buf := write_at (buf s) (used s)
                      (wire_sync (address em) (timestamp em - b) (timestamp om - b)
                         (payload em) (payload om)),
              used := used s + 40\<rparr>)"
proof -
  from assms(1) have a: "0 \<le> address em" "address em < 2 ^ 24"
    by (simp_all add: valid_message_def)
  from assms(7,8) have d: "- (2 ^ 31) \<le> timestamp em - b" "timestamp em - b < 2 ^ 31"
    "- (2 ^ 31) \<le> timestamp om - b" "timestamp om - b < 2 ^ 31"
    by simp_all
  note p = pack_sync [OF a d assms(9,10)]
  have sz: "struct_size (STRUCT_SYNC t a2 a1 a0 ed od ep op) = 40" for t a2 a1 a0 ed od ep op
    by (simp add: STRUCT_SYNC_def)
  have "used s + struct_size (STRUCT_SYNC TYPE_SYNC (drop_bit 16 (address em))
          (drop_bit 8 (address em) AND 255) (address em AND 255)
          (timestamp em - b) (timestamp om - b) (payload em) (payload om)) \<le> length (buf s)"
    using assms(2,3) by (simp add: sz)
  note q = pack_used_ok [OF p this]
  show ?thesis
    using assms(4,5,6,7,8) by (simp add: send_sync_def Let_def q sz)
qed

text \<open>
  C7. From the freshly constructed object, after any sequence of calls (\<open>send_mlat\<close>,
  \<open>send_sync\<close>, and \<open>start\<close>, \<open>flush\<close>, \<open>close\<close> between them), with any arguments
  and whether or not a call raised, the buffer has its 1500 bytes and \<open>used\<close> is at most
  1500: \<open>pack_into\<close> raises rather than write beyond the buffer. A \<open>send_mlat\<close> or
  \<open>send_sync\<close> that returns leaves \<open>used\<close> at most 1400, having flushed if it went
  above; one that raises does not flush. When \<open>used\<close> is at most 1400 at a call, the
  call, whatever it is, does not fail for lack of room: each of its \<open>pack_into\<close> calls
  finds \<open>offset + size \<le> 1500\<close>. And \<open>used\<close> is at most 1400 between calls as long
  as no call has raised.
\<close>

theorem used_within_buffer:
  "length (buf (snd (run_ops cs (init h p k)))) = 1500 \<and>
   used (snd (run_ops cs (init h p k))) \<le> 1500 \<and>
   (fst (send_mlat m ok (snd (run_ops cs (init h p k)))) = None \<longrightarrow>
      used (snd (send_mlat m ok (snd (run_ops cs (init h p k))))) \<le> 1400) \<and>
   (fst (send_sync em om ok (snd (run_ops cs (init h p k)))) = None \<longrightarrow>
      used (snd (send_sync em om ok (snd (run_ops cs (init h p k))))) \<le> 1400) \<and>
   (used (snd (run_ops cs (init h p k))) \<le> 1400 \<longrightarrow>
      fst (udp_step c (snd (run_ops cs (init h p k)))) \<noteq> Some (StructError BufferTooSmall)) \<and>
   ((\<forall>e \<in> set (fst (run_ops cs (init h p k))). e = None) \<longrightarrow>
      used (snd (run_ops cs (init h p k))) \<le> 1400)"
proof -
  let ?s = "snd (run_ops cs (init h p k))"
  have b: "bounded ?s" by (rule run_ops_bounded [OF init_bounded])
  have m: "fst (send_mlat m ok ?s) = None \<longrightarrow> used (snd (send_mlat m ok ?s)) \<le> 1400"
    using send_mlat_below [of m ok ?s] by (simp add: normally_def below_threshold_def)
  have y: "fst (send_sync em om ok ?s) = None \<longrightarrow> used (snd (send_sync em om ok ?s)) \<le> 1400"
    using send_sync_below [of em om ok ?s] by (simp add: normally_def below_threshold_def)
  have r: "used ?s \<le> 1400 \<longrightarrow> fst (udp_step c ?s) \<noteq> Some (StructError BufferTooSmall)"
    using udp_step_no_overrun [OF b, of c] by (simp add: below_threshold_def)
  have t: "(\<forall>e \<in> set (fst (run_ops cs (init h p k))). e = None) \<longrightarrow> used ?s \<le> 1400"
    using run_ops_below [OF init_below, of cs h p k] by (simp add: below_threshold_def)
  from b have "length (buf ?s) = 1500" "used ?s \<le> 1500" by (simp_all add: bounded_def)
  with m y r t show ?thesis by (simp only: simp_thms)
qed

theorem used_within_buffer_witness:
  "fst (run_ops full_ops (init [] 0 7)) = replicate 64 None \<and>
   used (snd (run_ops full_ops (init [] 0 7))) = 1400 \<and>
   send_mlat ml0 True (snd (run_ops full_ops (init [] 0 7)))
     = flush True
         ((snd (run_ops full_ops (init [] 0 7)))
            \<lparr>buf := write_at (buf (snd (run_ops full_ops (init [] 0 7)))) 1400 (wire_mlat ml0 0),
             used := 1422\<rparr>) \<and>
   fst (send_mlat ml0 True (snd (run_ops full_ops (init [] 0 7)))) = None \<and>
   used (snd (send_mlat ml0 True (snd (run_ops full_ops (init [] 0 7))))) \<le> 1400 \<and>
   fst (send_sync ml0 ml0 True (snd (run_ops full_ops (init [] 0 7)))) = None \<and>
   used (snd (send_sync ml0 ml0 True (snd (run_ops full_ops (init [] 0 7))))) \<le> 1400 \<and>
   fst (udp_step (SendSync em1 om1 True) (snd (run_ops full_ops (init [] 0 7))))
     \<noteq> Some (StructError BufferTooSmall)"
proof -
  let ?s = "snd (run_ops full_ops (init [] 0 7))"
  from full_ops_run(2) have l: "length (buf ?s) = 1500" and u: "used ?s = 1400"
    and k: "sock ?s = Some Connected" and wf: "wf_udp ?s"
    by (simp_all add: filled_def wf_udp_def inv_base_def full_ops_run(3))
  have u0: "used ?s \<noteq> 0" using u by simp
  have ok: "\<forall>e \<in> set (fst (run_ops full_ops (init [] 0 7))). e = None"
    by (simp add: full_ops_run(1))
  have lp: "length (payload ml0) = 7 \<or> length (payload ml0) = 14" by (simp add: ml0_facts)
  have n: "\<not> \<bar>timestamp ml0 - 1000\<bar> > 0x7FFFFFF0" by (simp add: ml0_facts)
  have w: "length (wire_mlat ml0 0) = 22"
    using length_wire_mlat [OF lp] by (simp add: ml0_facts)
  from send_mlat_near [OF ml0_facts(1) wf u0 full_ops_run(3) n lp, of True]
  have me: "send_mlat ml0 True ?s =
      flush True (?s\<lparr>buf := write_at (buf ?s) 1400 (wire_mlat ml0 0), used := 1422\<rparr>)"
    by (simp add: ml0_facts(3) w u flush_if_full_def)
  then have m: "fst (send_mlat ml0 True ?s) = None"
    by (simp add: flush_def k)
  have n2: "\<not> \<bar>timestamp ml0 - timestamp ml0\<bar> > 0xFFFFFFF0" by simp
  from send_sync_near [OF ml0_facts(1) l _ u0 full_ops_run(3) n2 n n ml0_facts(2) ml0_facts(2), of True]
  have y: "fst (send_sync ml0 ml0 True ?s) = None"
    by (simp add: u flush_if_full_def flush_def k)
  note t = used_within_buffer [of full_ops "[]" 0 7 ml0 True ml0 ml0 "SendSync em1 om1 True"]
  from t m have a: "used (snd (send_mlat ml0 True ?s)) \<le> 1400" by blast
  from t y have b: "used (snd (send_sync ml0 ml0 True ?s)) \<le> 1400" by blast
  from t ok have d: "used ?s \<le> 1400" by blast
  from t d have c: "fst (udp_step (SendSync em1 om1 True) ?s) \<noteq> Some (StructError BufferTooSmall)"
    by blast
  from full_ops_run(1) u me m a y b c show ?thesis by (simp only: simp_thms)
qed

subsection \<open>The reader: lines, pairing and fragmentation\<close>

lemma split_on_not_Nil [simp]: "split_on sep xs \<noteq> []"
  by (induction xs) (auto simp: split_on.simps split: list.splits)

lemma split_on_append:
  "split_on sep (xs @ ys) = butlast (split_on sep xs) @ split_on sep (last (split_on sep xs) @ ys)"
proof (induction xs)
  case Nil
  then show ?case by (simp add: split_on.simps)
next
  case (Cons x xs)
  obtain l ls where s: "split_on sep xs = l # ls"
    by (cases "split_on sep xs") simp_all
  show ?case
  proof (cases "x = sep")
    case True
    with Cons s show ?thesis by (simp add: split_on.simps)
  next
    case False
    show ?thesis
    proof (cases ls)
      case Nil
      with Cons s False show ?thesis by (simp add: split_on.simps)
    next
      case (Cons l' ls')
      with Cons.IH s False show ?thesis by (simp add: split_on.simps)
    qed
  qed
qed

lemma dispatch_frame:
  "dispatch coord c (rd\<lparr>partial_line := p, rx_bytes := n\<rparr>) =
     (fst (dispatch coord c rd), (snd (dispatch coord c rd))\<lparr>partial_line := p, rx_bytes := n\<rparr>)"
  by (simp add: dispatch_def)

lemma process_line_frame:
  "process_line fl coord line (rd\<lparr>partial_line := p, rx_bytes := n\<rparr>) =
     (fst (process_line fl coord line rd),
      (snd (process_line fl coord line rd))\<lparr>partial_line := p, rx_bytes := n\<rparr>)"
  by (simp add: process_line_def process_wanted_message_def process_unwanted_message_def
      process_result_message_def process_status_message_def dispatch_frame Let_def
      split: sum.splits)

lemma process_one_frame:
  "process_one fl coord line (rd\<lparr>partial_line := p, rx_bytes := n\<rparr>) =
     (fst (process_one fl coord line rd),
      (snd (process_one fl coord line rd))\<lparr>partial_line := p, rx_bytes := n\<rparr>)"
  by (simp add: process_one_def process_line_frame split: sum.splits prod.splits option.splits)

lemma process_lines_frame:
  "process_lines fl coord ls (rd\<lparr>partial_line := p, rx_bytes := n\<rparr>) =
     (fst (process_lines fl coord ls rd),
      (snd (process_lines fl coord ls rd))\<lparr>partial_line := p, rx_bytes := n\<rparr>)"
proof (induction ls arbitrary: rd)
  case Nil
  then show ?case by simp
next
  case (Cons l ls)
  obtain e rd1 where o: "process_one fl coord l rd = (e, rd1)" by (cases "process_one fl coord l rd")
  show ?case
    by (cases e) (simp_all add: process_one_frame o Cons.IH)
qed

lemma process_lines_append:
  "process_lines fl coord (xs @ ys) rd =
     (case process_lines fl coord xs rd of
        (None, rd1) \<Rightarrow> process_lines fl coord ys rd1
      | (Some e, rd1) \<Rightarrow> (Some e, rd1))"
  by (induction xs arbitrary: rd) (auto split: prod.splits option.splits)

lemma visible_update [simp]:
  "visible (rd\<lparr>partial_line := p\<rparr>) = visible rd"
  "visible (rd\<lparr>rx_bytes := n\<rparr>) = visible rd"
  "visible (visible rd) = visible rd"
  by (simp_all add: visible_def)

lemma process_lines_norm:
  "process_lines fl coord ls rd =
     (fst (process_lines fl coord ls (visible rd)),
      (snd (process_lines fl coord ls (visible rd)))\<lparr>partial_line := partial_line rd,
                                                     rx_bytes := rx_bytes rd\<rparr>)"
proof -
  have "rd = (visible rd)\<lparr>partial_line := partial_line rd, rx_bytes := rx_bytes rd\<rparr>"
    by (simp add: visible_def)
  then have "process_lines fl coord ls rd =
      process_lines fl coord ls ((visible rd)\<lparr>partial_line := partial_line rd, rx_bytes := rx_bytes rd\<rparr>)"
    by simp
  then show ?thesis by (simp only: process_lines_frame)
qed

lemma visible_process_lines [simp]:
  "visible (snd (process_lines fl coord ls (visible rd))) = snd (process_lines fl coord ls (visible rd))"
proof -
  have "snd (process_lines fl coord ls (visible rd)) =
        (snd (process_lines fl coord ls (visible (visible rd))))\<lparr>partial_line := partial_line (visible rd),
            rx_bytes := rx_bytes (visible rd)\<rparr>"
    by (subst process_lines_norm) simp
  then show ?thesis by (simp add: visible_def)
qed

lemma handle_read_norm:
  assumes "c \<noteq> []"
  shows "handle_read fl coord (Data c) rd =
     (fst (process_lines fl coord (butlast (split_on NL (partial_line rd @ c))) (visible rd)),
      (snd (process_lines fl coord (butlast (split_on NL (partial_line rd @ c))) (visible rd)))
        \<lparr>partial_line :=
           (if fst (process_lines fl coord (butlast (split_on NL (partial_line rd @ c))) (visible rd)) = None
            then last (split_on NL (partial_line rd @ c)) else partial_line rd),
         rx_bytes := rx_bytes rd + length c\<rparr>)"
proof -
  let ?L = "split_on NL (partial_line rd @ c)"
  let ?rd1 = "rd\<lparr>rx_bytes := rx_bytes rd + length c\<rparr>"
  obtain e v where r: "process_lines fl coord (butlast ?L) (visible rd) = (e, v)"
    by (cases "process_lines fl coord (butlast ?L) (visible rd)")
  have "process_lines fl coord (butlast ?L) ?rd1 =
        (e, v\<lparr>partial_line := partial_line rd, rx_bytes := rx_bytes rd + length c\<rparr>)"
    by (subst process_lines_norm) (simp add: r)
  with assms r show ?thesis
    by (cases e) (simp_all add: handle_read_def Let_def)
qed

lemma two_chunks:
  assumes "c1 \<noteq> []" "c2 \<noteq> []"
  shows "same_outcome
           (case handle_read fl coord (Data c1) rd of
              (None, rd1) \<Rightarrow> handle_read fl coord (Data c2) rd1
            | (Some e, rd1) \<Rightarrow> (Some e, rd1))
           (handle_read fl coord (Data (c1 @ c2)) rd)"
proof -
  let ?p = "partial_line rd"
  let ?A = "butlast (split_on NL (?p @ c1))"
  let ?r1 = "last (split_on NL (?p @ c1))"
  let ?B = "butlast (split_on NL (?r1 @ c2))"
  let ?r2 = "last (split_on NL (?r1 @ c2))"
  have sp: "split_on NL (?p @ c1 @ c2) = ?A @ split_on NL (?r1 @ c2)"
    using split_on_append [of NL "?p @ c1" c2] by simp
  have bl: "butlast (split_on NL (?p @ c1 @ c2)) = ?A @ ?B"
    by (simp add: sp butlast_append)
  have la: "last (split_on NL (?p @ c1 @ c2)) = ?r2"
    by (simp add: sp)
  obtain e1 v1 where r1: "process_lines fl coord ?A (visible rd) = (e1, v1)"
    by (cases "process_lines fl coord ?A (visible rd)")
  have v1: "visible v1 = v1"
    using visible_process_lines [of fl coord ?A rd] by (simp add: r1)
  obtain e2 v2 where r2: "process_lines fl coord ?B v1 = (e2, v2)"
    by (cases "process_lines fl coord ?B v1")
  have v2: "visible v2 = v2"
    using visible_process_lines [of fl coord ?B v1] by (simp add: r2 v1)
  from assms have c12: "c1 @ c2 \<noteq> []" by simp
  show ?thesis
  proof (cases e1)
    case (Some e)
    with r1 show ?thesis
      by (simp add: handle_read_norm [OF assms(1)] handle_read_norm [OF c12] bl la
          process_lines_append same_outcome_def v1)
  next
    case None
    with r1 r2 show ?thesis
      by (cases e2)
         (simp_all add: handle_read_norm [OF assms(1)] handle_read_norm [OF assms(2)]
          handle_read_norm [OF c12] bl la process_lines_append same_outcome_def v1 v2)
  qed
qed

lemma same_outcome_refl [simp]: "same_outcome r r"
  by (simp add: same_outcome_def)

lemma same_outcome_trans: "same_outcome a b \<Longrightarrow> same_outcome b c \<Longrightarrow> same_outcome a c"
  by (auto simp: same_outcome_def)

lemma feed_same_outcome:
  assumes "chunks \<noteq> []" "[] \<notin> set chunks"
  shows "same_outcome (feed fl coord chunks rd) (handle_read fl coord (Data (concat chunks)) rd)"
  using assms
proof (induction chunks arbitrary: rd)
  case Nil
  then show ?case by simp
next
  case (Cons c cs)
  then have c: "c \<noteq> []" and cs: "[] \<notin> set cs" by auto
  obtain e rd1 where h: "handle_read fl coord (Data c) rd = (e, rd1)"
    by (cases "handle_read fl coord (Data c) rd")
  show ?case
  proof (cases cs)
    case Nil
    with h show ?thesis by (cases e) simp_all
  next
    case (Cons c' cs')
    then have ne: "cs \<noteq> []" by simp
    with cs have cc: "concat cs \<noteq> []" by (cases cs) auto
    have two: "same_outcome
           (case handle_read fl coord (Data c) rd of
              (None, rd1) \<Rightarrow> handle_read fl coord (Data (concat cs)) rd1
            | (Some e, rd1) \<Rightarrow> (Some e, rd1))
           (handle_read fl coord (Data (c @ concat cs)) rd)"
      by (rule two_chunks [OF c cc])
    show ?thesis
    proof (cases e)
      case None
      from Cons.IH [OF ne cs, of rd1]
      have "same_outcome (feed fl coord cs rd1) (handle_read fl coord (Data (concat cs)) rd1)" .
      from same_outcome_trans [OF this] two h None show ?thesis by simp
    next
      case (Some err)
      with two h show ?thesis by simp
    qed
  qed
qed

text \<open>
  C3. A byte stream cut into any non-empty chunks (one byte each, for instance) and
  handed to \<open>handle_read\<close> chunk by chunk gives what the whole stream gives in one
  chunk: the same exception, if any; the same calls of the coordinator in the same
  order, the same log entries and the same connection state; and, when nothing was
  raised, the same reader altogether, partial line and byte count included. A chunk
  is put behind the buffered partial line and split at newlines; all pieces but the
  last are processed in order, and the last becomes the partial line.
\<close>

theorem fragmentation_invariance:
  assumes "chunks \<noteq> []" and "[] \<notin> set chunks"
  shows "fst (feed fl coord chunks rd) = fst (handle_read fl coord (Data (concat chunks)) rd) \<and>
         calls (snd (feed fl coord chunks rd))
           = calls (snd (handle_read fl coord (Data (concat chunks)) rd)) \<and>
         logged (snd (feed fl coord chunks rd))
           = logged (snd (handle_read fl coord (Data (concat chunks)) rd)) \<and>
         conn_state (snd (feed fl coord chunks rd))
           = conn_state (snd (handle_read fl coord (Data (concat chunks)) rd)) \<and>
         (fst (feed fl coord chunks rd) = None \<longrightarrow>
            feed fl coord chunks rd = handle_read fl coord (Data (concat chunks)) rd) \<and>
         (\<forall>c. c \<noteq> [] \<longrightarrow>
            handle_read fl coord (Data c) rd =
              (case process_lines fl coord (butlast (split_on NL (partial_line rd @ c)))
                      (rd\<lparr>rx_bytes := rx_bytes rd + length c\<rparr>) of
                 (None, rd2) \<Rightarrow> (None, rd2\<lparr>partial_line := last (split_on NL (partial_line rd @ c))\<rparr>)
               | (Some e, rd2) \<Rightarrow> (Some e, rd2)))"
proof -
  let ?a = "feed fl coord chunks rd"
  let ?b = "handle_read fl coord (Data (concat chunks)) rd"
  have s: "same_outcome ?a ?b" by (rule feed_same_outcome [OF assms])
  then have f: "fst ?a = fst ?b" and v: "visible (snd ?a) = visible (snd ?b)"
    and n: "fst ?a = None \<longrightarrow> snd ?a = snd ?b"
    by (simp_all add: same_outcome_def)
  have "calls (visible (snd ?a)) = calls (visible (snd ?b))"
    "logged (visible (snd ?a)) = logged (visible (snd ?b))"
    "conn_state (visible (snd ?a)) = conn_state (visible (snd ?b))"
    by (simp_all only: v)
  then have o: "calls (snd ?a) = calls (snd ?b)" "logged (snd ?a) = logged (snd ?b)"
    "conn_state (snd ?a) = conn_state (snd ?b)"
    by (simp_all add: visible_def)
  from f n have e: "fst ?a = None \<longrightarrow> ?a = ?b"
    by (simp add: prod_eq_iff)
  have d: "\<forall>c. c \<noteq> [] \<longrightarrow>
            handle_read fl coord (Data c) rd =
              (case process_lines fl coord (butlast (split_on NL (partial_line rd @ c)))
                      (rd\<lparr>rx_bytes := rx_bytes rd + length c\<rparr>) of
                 (None, rd2) \<Rightarrow> (None, rd2\<lparr>partial_line := last (split_on NL (partial_line rd @ c))\<rparr>)
               | (Some e, rd2) \<Rightarrow> (Some e, rd2))"
    by (simp add: handle_read_def Let_def)
  from f o e d show ?thesis by blast
qed

lemmas str_eval =
  TAB_def NL_def SP_def split_on.simps py_int_def strip_def is_space_def digit_value_def Let_def
  parse_message_def dict_def getitem_def bind_err_def hexid_set_def is_ascii_def decode_ascii_def

lemma parse_wanted_line:
  "parse_message wanted_line = [''type'' \<mapsto> ''mlat_wanted'', ''hexids'' \<mapsto> ''ABCDEF 123456'']"
  by (simp add: wanted_line_def str_eval)

lemma parse_wanted_none_line:
  "parse_message wanted_none_line = [''type'' \<mapsto> ''mlat_wanted'', ''hexids'' \<mapsto> '''']"
  by (simp add: wanted_none_line_def str_eval)

lemma hexid_set_wanted_line: "hexid_set (parse_message wanted_line) = Inr {0xABCDEF, 0x123456}"
  by (simp add: parse_wanted_line) (simp add: str_eval)

lemma hexid_set_wanted_none_line: "hexid_set (parse_message wanted_none_line) = Inr {}"
  by (simp add: parse_wanted_none_line) (simp add: str_eval)

lemma type_wanted_line:
  "getitem (parse_message wanted_line) ''type'' = Inr ''mlat_wanted''"
  "getitem (parse_message wanted_none_line) ''type'' = Inr ''mlat_wanted''"
  by (simp_all add: parse_wanted_line parse_wanted_none_line getitem_def)

lemma int16_all_Inr: "map (py_int 16) ts = map Inr is \<Longrightarrow> int16_all ts = Inr is"
  by (induction ts arbitrary: "is") (auto simp: bind_err_def)

text \<open>
  C8. The line \<open>type\\tmlat_wanted\\thexids\\tABCDEF 123456\<close> calls
  \<open>server_start_sending\<close> with the set of \<open>0xABCDEF\<close> and \<open>0x123456\<close>, the same line
  with an empty \<open>hexids\<close> value calls it with the empty set, and any line whose type is
  \<open>mlat_wanted\<close> calls it with the set of the numbers that \<open>int(x, 16)\<close> reads from the
  tokens of its \<open>hexids\<close> value between single spaces (the empty set when the
  value is empty). The call is the only effect of the line.
\<close>

theorem wanted_dispatch:
  "process_line fl coord wanted_line rd
     = dispatch coord (ServerStartSending {0xABCDEF, 0x123456}) rd \<and>
   process_line fl coord wanted_none_line rd = dispatch coord (ServerStartSending {}) rd \<and>
   (parse_message line ''type'' = Some ''mlat_wanted'' \<and> parse_message line ''hexids'' = Some h \<and>
    (h \<noteq> [] \<longrightarrow> map (py_int 16) (split_on SP h) = map Inr ids)
    \<longrightarrow> process_line fl coord line rd
          = dispatch coord (ServerStartSending (if h = [] then {} else set ids)) rd)"
proof -
  have a: "process_line fl coord wanted_line rd
     = dispatch coord (ServerStartSending {0xABCDEF, 0x123456}) rd"
    by (simp add: process_line_def Let_def type_wanted_line process_wanted_message_def
        hexid_set_wanted_line)
  have b: "process_line fl coord wanted_none_line rd = dispatch coord (ServerStartSending {}) rd"
    by (simp add: process_line_def Let_def type_wanted_line process_wanted_message_def
        hexid_set_wanted_none_line)
  have c: "process_line fl coord line rd
          = dispatch coord (ServerStartSending (if h = [] then {} else set ids)) rd"
    if "parse_message line ''type'' = Some ''mlat_wanted''" "parse_message line ''hexids'' = Some h"
      "h \<noteq> [] \<longrightarrow> map (py_int 16) (split_on SP h) = map Inr ids"
  proof (cases "h = []")
    case True
    with that(1,2) show ?thesis
      by (simp add: process_line_def process_wanted_message_def hexid_set_def getitem_def
          bind_err_def)
  next
    case False
    with that(3) have "int16_all (split_on SP h) = Inr ids" by (simp add: int16_all_Inr)
    with that(1,2) False show ?thesis
      by (simp add: process_line_def process_wanted_message_def hexid_set_def getitem_def
          bind_err_def)
  qed
  from a b c show ?thesis by blast
qed

theorem wanted_dispatch_witness:
  "parse_message wanted_line ''type'' = Some ''mlat_wanted'' \<and>
   parse_message wanted_line ''hexids'' = Some ''ABCDEF 123456'' \<and>
   map (py_int 16) (split_on SP ''ABCDEF 123456'') = map Inr [0xABCDEF, 0x123456] \<and>
   process_line no_float coord_ok wanted_line new_reader
     = (None, new_reader\<lparr>calls := [ServerStartSending {0xABCDEF, 0x123456}]\<rparr>)"
proof -
  have h: "parse_message wanted_line ''type'' = Some ''mlat_wanted''"
    "parse_message wanted_line ''hexids'' = Some ''ABCDEF 123456''"
    by (simp_all add: parse_wanted_line)
  have p: "map (py_int 16) (split_on SP ''ABCDEF 123456'') = map Inr [0xABCDEF, 0x123456]"
    by (simp add: str_eval)
  from wanted_dispatch [of no_float coord_ok new_reader wanted_line "''ABCDEF 123456''"
      "[0xABCDEF, 0x123456]"] h p
  show ?thesis by (simp add: dispatch_def new_reader_def coord_ok_def)
qed

lemma length_evens_odds: "length (zip (evens fs) (odds fs)) = length fs div 2"
  by (induction fs rule: evens.induct) simp_all

lemma zip_evens_odds_butlast:
  "odd (length fs) \<Longrightarrow> zip (evens fs) (odds fs) = zip (evens (butlast fs)) (odds (butlast fs))"
proof (induction fs rule: evens.induct)
  case 1
  then show ?case by simp
next
  case (2 x)
  then show ?case by simp
next
  case (3 x y xs)
  then have "odd (length xs)" by simp
  then have "xs \<noteq> []" by auto
  with 3 show ?case by simp
qed

lemma dict_snoc: "dict (ps @ [(k, v)]) = (dict ps)(k \<mapsto> v)"
  by (simp add: dict_def)

lemma dict_map_of: "dict ps = map_of (rev ps)"
proof (induction ps rule: rev_induct)
  case Nil
  then show ?case by (simp add: dict_def)
next
  case (snoc x xs)
  obtain k v where x: "x = (k, v)" by (cases x)
  with snoc show ?case by (simp add: dict_snoc fun_upd_def)
qed

lemma dict_last_wins: "k \<notin> fst ` set qs \<Longrightarrow> dict (ps @ (k, v) # qs) k = Some v"
  by (simp add: dict_map_of map_add_def map_of_eq_None_iff [THEN iffD2] split: option.splits)

text \<open>
  C10. Pairing the tokens of a line never fails: the tokens at even positions are the
  keys, those at odd positions the values, and \<open>zip\<close> stops at the shorter list, so
  a line of \<open>n\<close> tokens gives \<open>n div 2\<close> pairs. With an odd number of tokens the
  mapping is the one of the line without its last token. Where a key occurs more than
  once, the value of its last occurrence is the one the mapping holds.
\<close>

theorem pairing_truncates:
  "length (zip (evens (split_on TAB line)) (odds (split_on TAB line)))
     = length (split_on TAB line) div 2 \<and>
   (odd (length (split_on TAB line)) \<longrightarrow>
      parse_message line
        = dict (zip (evens (butlast (split_on TAB line))) (odds (butlast (split_on TAB line))))) \<and>
   (k \<notin> fst ` set qs \<longrightarrow> dict (ps @ (k, v) # qs) k = Some v)"
  using length_evens_odds [of "split_on TAB line"]
  by (simp add: parse_message_def Let_def zip_evens_odds_butlast dict_last_wins)

lemma split_odd_line:
  "split_on TAB odd_line = [''type'', ''mlat_x'', ''type'', ''mlat_y'', ''junk'']"
  by (simp add: odd_line_def TAB_def split_on.simps)

theorem pairing_truncates_witness:
  "odd (length (split_on TAB odd_line)) \<and>
   length (zip (evens (split_on TAB odd_line)) (odds (split_on TAB odd_line))) = 2 \<and>
   parse_message odd_line = [''type'' \<mapsto> ''mlat_y''] \<and>
   ''type'' \<notin> fst ` set [] \<and>
   dict ([(''type'', ''mlat_x'')] @ (''type'', ''mlat_y'') # []) ''type'' = Some ''mlat_y''"
  using pairing_truncates [of odd_line "''type''" "[]" "[(''type'', ''mlat_x'')]" "''mlat_y''"]
  by (simp add: split_odd_line dict_def)

lemma process_line_wanted_line:
  "process_line fl coord wanted_line rd
     = dispatch coord (ServerStartSending {0xABCDEF, 0x123456}) rd"
  by (simp add: process_line_def Let_def type_wanted_line process_wanted_message_def
      hexid_set_wanted_line)

lemma split_wanted_line_nl: "split_on NL (wanted_line @ [NL]) = [wanted_line, []]"
  by (simp add: wanted_line_def TAB_def NL_def split_on.simps)

lemma decode_wanted_line: "decode_ascii wanted_line = Inr wanted_line"
  by (simp add: wanted_line_def TAB_def decode_ascii_def is_ascii_def)

lemma handle_read_wanted_line:
  "handle_read no_float coord_ok (Data (wanted_line @ [NL])) new_reader =
     (None, new_reader\<lparr>rx_bytes := length (wanted_line @ [NL]),
                        calls := [ServerStartSending {0xABCDEF, 0x123456}]\<rparr>)"
  by (simp add: handle_read_def new_reader_def split_wanted_line_nl process_one_def
      decode_wanted_line process_line_wanted_line dispatch_def coord_ok_def Let_def)

theorem fragmentation_invariance_witness:
  "byte_chunks \<noteq> [] \<and> [] \<notin> set byte_chunks \<and> length byte_chunks = 38 \<and>
   concat byte_chunks = wanted_line @ [NL] \<and>
   feed no_float coord_ok byte_chunks new_reader =
     (None, new_reader\<lparr>rx_bytes := 38,
                        calls := [ServerStartSending {0xABCDEF, 0x123456}]\<rparr>)"
proof -
  have n: "byte_chunks \<noteq> []" "[] \<notin> set byte_chunks"
    by (auto simp: byte_chunks_def)
  have c: "concat byte_chunks = wanted_line @ [NL]"
    by (simp add: byte_chunks_def)
  have l: "length (wanted_line @ [NL]) = 38"
    by (simp add: wanted_line_def)
  then have l2: "length byte_chunks = 38"
    by (simp add: byte_chunks_def)
  from fragmentation_invariance [OF n, of no_float coord_ok new_reader]
  have "fst (feed no_float coord_ok byte_chunks new_reader) = None \<and>
        (fst (feed no_float coord_ok byte_chunks new_reader) = None \<longrightarrow>
         feed no_float coord_ok byte_chunks new_reader =
         handle_read no_float coord_ok (Data (wanted_line @ [NL])) new_reader)"
    by (simp add: c handle_read_wanted_line)
  then have "feed no_float coord_ok byte_chunks new_reader =
         handle_read no_float coord_ok (Data (wanted_line @ [NL])) new_reader"
    by blast
  with n c l l2 show ?thesis
    by (simp add: handle_read_wanted_line)
qed

subsection \<open>The writer: appends and the overflow check\<close>

lemma hex_nat_small: "n < 16 \<Longrightarrow> hex_nat upper n = [hex_char upper n]"
  by (simp add: hex_nat.simps)

lemma hex_nat_big:
  "\<not> n < 16 \<Longrightarrow> hex_nat upper n = hex_nat upper (n div 16) @ [hex_char upper (n mod 16)]"
  by (subst hex_nat.simps) simp









end
